theory Spec2Isabelle
  imports Main "HOL-Library.Word" "HOL-Library.Multiset"
begin

section \<open>Data model of Claw2ClawHook\<close>

text \<open>
  The contract \<open>Claw2ClawHook\<close> is embedded as pure functions over an explicit world:
  the contract's storage, the ERC20 ledgers it talks to, the pool manager of the test
  suite (\<open>MockPoolManager.sol\<close>), the events emitted and the external calls made.
  A revert is a value \<open>Inl e\<close>; the caller then keeps the world it had.
  \<open>uint256\<close> values are natural numbers with the checked arithmetic of Solidity 0.8
  written out; \<open>uint128\<close> and \<open>int128\<close> are 128-bit words.
\<close>

type_synonym address = nat
type_synonym uint128 = "128 word"
type_synonym int128 = "128 word"

record PoolKey =
  currency0 :: address
  currency1 :: address
  fee :: nat
  tickSpacing :: int
  hooks :: address

text \<open>
  \<open>keccak256(abi.encode(key))\<close>: the hash is taken to be collision free and is
  represented by the encoded tuple itself.
\<close>

type_synonym bytes32 = "address \<times> address \<times> nat \<times> int \<times> address"

definition keccak256_encode :: "PoolKey \<Rightarrow> bytes32" where
  "keccak256_encode key =
     (currency0 key, currency1 key, fee key, tickSpacing key, hooks key)"

record Order =
  maker :: address
  sellToken0 :: bool
  amountIn :: uint128
  minAmountOut :: uint128
  expiry :: nat
  active :: bool
  poolId :: bytes32

record SwapParams =
  zeroForOne :: bool
  amountSpecified :: int
  sqrtPriceLimitX96 :: nat

datatype error =
    NotAdmin | NotWhitelisted | HookNotImplemented | OrderNotFound | OrderNotActive
  | Unauthorized | ExactInputOnly | AmountOverflow | InvalidAmounts | InvalidDuration
  | TransferFailed | OnlyPoolManager | ZeroAddress | PoolMismatch | DurationTooLong
  | NotPendingAdmin
  | Panic
  | SafeERC20FailedOperation
  | ReentrancyGuardReentrantCall
  | MockPMTransferFailed

datatype event =
    OrderPosted nat address bool uint128 uint128 nat
  | OrderCancelled nat address
  | OrderExpired nat address
  | P2PTrade nat address address address address uint128 uint128
  | BotAdded address
  | BotRemoved address
  | AdminChanged address address
  | PendingAdminSet address
  | RefundFailed nat address

text \<open>The external calls the hook issues, as the callee sees them.\<close>

datatype extcall =
    ERC20_transfer address address nat
  | ERC20_transferFrom address address address nat
  | PM_take address address nat
  | PM_sync address
  | PM_settle

datatype selector = BeforeSwapSelector | AfterSwapSelector

text \<open>
  \<open>BeforeSwapDelta\<close> packs two \<open>int128\<close> values, the specified and the unspecified
  delta; it is kept as the pair.
\<close>

type_synonym BeforeSwapDelta = "int128 \<times> int128"

definition ZERO_DELTA :: BeforeSwapDelta where
  "ZERO_DELTA = (0, 0)"

definition toBeforeSwapDelta :: "int128 \<Rightarrow> int128 \<Rightarrow> BeforeSwapDelta" where
  "toBeforeSwapDelta specified unspecified = (specified, unspecified)"

definition MAX_ORDER_DURATION :: nat where
  "MAX_ORDER_DURATION = 30 * 86400"

definition MAX_ITERATIONS :: nat where
  "MAX_ITERATIONS = 100"

definition MAX_UINT256 :: nat where
  "MAX_UINT256 = 2 ^ 256 - 1"

definition INT256_MIN :: int where
  "INT256_MIN = - (2 ^ 255)"

definition INT128_MAX :: nat where
  "INT128_MAX = 2 ^ 127 - 1"

definition INT128_MIN :: int128 where
  "INT128_MIN = 2 ^ 127"

record storage =
  admin :: address
  pendingAdmin :: address
  allowedBots :: "address \<Rightarrow> bool"
  nextOrderId :: nat
  orders :: "nat \<Rightarrow> Order"
  poolOrders :: "bytes32 \<Rightarrow> nat list"
  unclaimedBalances :: "address \<Rightarrow> address \<Rightarrow> nat"
  entered :: bool

text \<open>
  Modelled from the spec: the token-transfer abstraction (\<open>IERC20\<close>, \<open>SafeERC20\<close> and
  \<open>MockToken.sol\<close> are not among the sources). A token is a ledger \<open>balanceOf\<close> with
  allowances; a transfer to a \<open>restricted\<close> recipient or beyond the balance fails, by
  returning false when the token is in \<open>returnsFalse\<close>, by reverting otherwise.
  The fields \<open>takeCalls\<close> to \<open>syncBalanceBefore\<close> are the storage of
  \<open>MockPoolManager\<close>. Every external call of the hook is recorded in \<open>calls\<close>
  together with the hook's storage at the moment of the call.
\<close>

record world =
  hk :: storage
  poolManager :: address
  self :: address
  balanceOf :: "address \<Rightarrow> address \<Rightarrow> nat"
  allowance :: "address \<Rightarrow> address \<Rightarrow> address \<Rightarrow> nat"
  restricted :: "address \<Rightarrow> address \<Rightarrow> bool"
  returnsFalse :: "address \<Rightarrow> bool"
  takeCalls :: "(address \<times> address \<times> nat) list"
  settleCalls :: "(address \<times> nat) list"
  lastSyncedCurrency :: address
  syncBalanceBefore :: nat
  events :: "event list"
  calls :: "(extcall \<times> storage) list"

section \<open>The environment: tokens and the pool manager\<close>

datatype call_result = Returned bool world | Reverted

definition emit :: "event \<Rightarrow> world \<Rightarrow> world" where
  "emit e w = w\<lparr>events := events w @ [e]\<rparr>"

definition log_call :: "extcall \<Rightarrow> world \<Rightarrow> world" where
  "log_call c w = w\<lparr>calls := calls w @ [(c, hk w)]\<rparr>"

definition move :: "address \<Rightarrow> address \<Rightarrow> address \<Rightarrow> nat \<Rightarrow> world \<Rightarrow> world" where
  "move token src dst amount w =
     (let b = balanceOf w token;
          b1 = b(src := b src - amount);
          b2 = b1(dst := b1 dst + amount)
      in w\<lparr>balanceOf := (balanceOf w)(token := b2)\<rparr>)"

definition token_fails :: "address \<Rightarrow> world \<Rightarrow> call_result" where
  "token_fails token w = (if returnsFalse w token then Returned False w else Reverted)"

definition erc20_transfer ::
  "address \<Rightarrow> address \<Rightarrow> address \<Rightarrow> nat \<Rightarrow> world \<Rightarrow> call_result" where
  "erc20_transfer token src dst amount w =
     (if restricted w token dst \<or> balanceOf w token src < amount then token_fails token w
      else Returned True (move token src dst amount w))"

definition erc20_transferFrom ::
  "address \<Rightarrow> address \<Rightarrow> address \<Rightarrow> address \<Rightarrow> nat \<Rightarrow> world \<Rightarrow> call_result" where
  "erc20_transferFrom token spender src dst amount w =
     (if restricted w token dst \<or> balanceOf w token src < amount
         \<or> allowance w token src spender < amount
      then token_fails token w
      else
        let a = allowance w token src spender;
            w1 = (if a = MAX_UINT256 then w
                  else w\<lparr>allowance := (allowance w)
                         (token := (allowance w token)
                            (src := (allowance w token src)(spender := a - amount)))\<rparr>)
        in Returned True (move token src dst amount w1))"

text \<open>\<open>SafeERC20\<close>: the call must neither revert nor return false.\<close>

definition safeTransfer :: "address \<Rightarrow> address \<Rightarrow> nat \<Rightarrow> world \<Rightarrow> error + world" where
  "safeTransfer token dst amount w =
     (case erc20_transfer token (self w) dst amount
             (log_call (ERC20_transfer token dst amount) w) of
        Returned True w' \<Rightarrow> Inr w'
      | Returned False w' \<Rightarrow> Inl SafeERC20FailedOperation
      | Reverted \<Rightarrow> Inl SafeERC20FailedOperation)"

definition safeTransferFrom ::
  "address \<Rightarrow> address \<Rightarrow> address \<Rightarrow> nat \<Rightarrow> world \<Rightarrow> error + world" where
  "safeTransferFrom token src dst amount w =
     (case erc20_transferFrom token (self w) src dst amount
             (log_call (ERC20_transferFrom token src dst amount) w) of
        Returned True w' \<Rightarrow> Inr w'
      | Returned False w' \<Rightarrow> Inl SafeERC20FailedOperation
      | Reverted \<Rightarrow> Inl SafeERC20FailedOperation)"

text \<open>\<open>MockPoolManager.take\<close>, \<open>sync\<close> and \<open>settle\<close>.\<close>

definition pm_take :: "address \<Rightarrow> address \<Rightarrow> nat \<Rightarrow> world \<Rightarrow> error + world" where
  "pm_take currency to amount w =
     (let w1 = log_call (PM_take currency to amount) w;
          w2 = w1\<lparr>takeCalls := takeCalls w1 @ [(currency, to, amount)]\<rparr>
      in if amount > 0 then
           (case erc20_transfer currency (poolManager w2) to amount w2 of
              Returned True w3 \<Rightarrow> Inr w3
            | Returned False w3 \<Rightarrow> Inl MockPMTransferFailed
            | Reverted \<Rightarrow> Inl MockPMTransferFailed)
         else Inr w2)"

definition pm_sync :: "address \<Rightarrow> world \<Rightarrow> world" where
  "pm_sync currency w =
     (let w1 = log_call (PM_sync currency) w
      in w1\<lparr>lastSyncedCurrency := currency,
             syncBalanceBefore := balanceOf w1 currency (poolManager w1)\<rparr>)"

definition pm_settle :: "world \<Rightarrow> error + world" where
  "pm_settle w =
     (let w1 = log_call PM_settle w;
          balanceNow = balanceOf w1 (lastSyncedCurrency w1) (poolManager w1)
      in if balanceNow < syncBalanceBefore w1 then Inl Panic
         else Inr (w1\<lparr>settleCalls := settleCalls w1
                        @ [(lastSyncedCurrency w1, balanceNow - syncBalanceBefore w1)]\<rparr>))"

section \<open>The hook\<close>

definition upd_hk :: "(storage \<Rightarrow> storage) \<Rightarrow> world \<Rightarrow> world" where
  "upd_hk f w = w\<lparr>hk := f (hk w)\<rparr>"

text \<open>The \<open>nonReentrant\<close> modifier of \<open>ReentrancyGuard\<close>.\<close>

definition nonReentrant ::
  "(world \<Rightarrow> error + ('a \<times> world)) \<Rightarrow> world \<Rightarrow> error + ('a \<times> world)" where
  "nonReentrant body w =
     (if entered (hk w) then Inl ReentrancyGuardReentrantCall
      else case body (upd_hk (\<lambda>s. s\<lparr>entered := True\<rparr>) w) of
             Inl e \<Rightarrow> Inl e
           | Inr (r, w') \<Rightarrow> Inr (r, upd_hk (\<lambda>s. s\<lparr>entered := False\<rparr>) w'))"

definition addBot :: "address \<Rightarrow> address \<Rightarrow> world \<Rightarrow> error + (unit \<times> world)" where
  "addBot msg_sender botAddr w =
     (if msg_sender \<noteq> admin (hk w) then Inl NotAdmin
      else Inr ((), emit (BotAdded botAddr)
                  (upd_hk (\<lambda>s. s\<lparr>allowedBots := (allowedBots s)(botAddr := True)\<rparr>) w)))"

definition removeBot :: "address \<Rightarrow> address \<Rightarrow> world \<Rightarrow> error + (unit \<times> world)" where
  "removeBot msg_sender botAddr w =
     (if msg_sender \<noteq> admin (hk w) then Inl NotAdmin
      else Inr ((), emit (BotRemoved botAddr)
                  (upd_hk (\<lambda>s. s\<lparr>allowedBots := (allowedBots s)(botAddr := False)\<rparr>) w)))"

definition setAdmin :: "address \<Rightarrow> address \<Rightarrow> world \<Rightarrow> error + (unit \<times> world)" where
  "setAdmin msg_sender newAdmin w =
     (if msg_sender \<noteq> admin (hk w) then Inl NotAdmin
      else if newAdmin = 0 then Inl ZeroAddress
      else Inr ((), emit (PendingAdminSet newAdmin)
                  (upd_hk (\<lambda>s. s\<lparr>pendingAdmin := newAdmin\<rparr>) w)))"

definition acceptAdmin :: "address \<Rightarrow> world \<Rightarrow> error + (unit \<times> world)" where
  "acceptAdmin msg_sender w =
     (if msg_sender \<noteq> pendingAdmin (hk w) then Inl NotPendingAdmin
      else Inr ((), upd_hk (\<lambda>s. s\<lparr>admin := msg_sender, pendingAdmin := 0\<rparr>)
                  (emit (AdminChanged (admin (hk w)) msg_sender) w)))"

definition push_order :: "bytes32 \<Rightarrow> nat \<Rightarrow> storage \<Rightarrow> storage" where
  "push_order pid orderId s = s\<lparr>poolOrders := (poolOrders s)(pid := poolOrders s pid @ [orderId])\<rparr>"

definition postOrder ::
  "address \<Rightarrow> nat \<Rightarrow> PoolKey \<Rightarrow> bool \<Rightarrow> uint128 \<Rightarrow> uint128 \<Rightarrow> nat \<Rightarrow> world
     \<Rightarrow> error + (nat \<times> world)" where
  "postOrder msg_sender now key sell amtIn minOut duration w0 =
     (if \<not> allowedBots (hk w0) msg_sender then Inl NotWhitelisted
      else nonReentrant (\<lambda>w.
        if amtIn = 0 \<or> minOut = 0 then Inl InvalidAmounts
        else if duration = 0 then Inl InvalidDuration
        else if duration > MAX_ORDER_DURATION then Inl DurationTooLong
        else
          let pid = keccak256_encode key;
              orderId = nextOrderId (hk w)
          in if orderId = MAX_UINT256 then Inl Panic
             else if now + duration > MAX_UINT256 then Inl Panic
             else
               let w1 = upd_hk (\<lambda>s. s\<lparr>nextOrderId := orderId + 1,
                          orders := (orders s)(orderId :=
                            \<lparr>maker = msg_sender, sellToken0 = sell, amountIn = amtIn,
                             minAmountOut = minOut, expiry = now + duration,
                             active = True, poolId = pid\<rparr>)\<rparr>) w;
                   tokenIn = (if sell then currency0 key else currency1 key)
               in case safeTransferFrom tokenIn msg_sender (self w1) (unat amtIn) w1 of
                    Inl e \<Rightarrow> Inl e
                  | Inr w2 \<Rightarrow>
                      Inr (orderId,
                           emit (OrderPosted orderId msg_sender sell amtIn minOut (now + duration))
                             (upd_hk (push_order pid orderId) w2))) w0)"

text \<open>\<open>_removeOrder\<close>: the first slot holding the id takes the last entry, which is popped.\<close>

function removeOrder_loop :: "nat list \<Rightarrow> nat \<Rightarrow> nat \<Rightarrow> nat list" where
  "removeOrder_loop ids orderId i =
     (if i < length ids then
        (if ids ! i = orderId then butlast (ids[i := ids ! (length ids - 1)])
         else removeOrder_loop ids orderId (Suc i))
      else ids)"
  by pat_completeness auto
termination
  by (relation "measure (\<lambda>(ids, orderId, i). length ids - i)") auto

declare removeOrder_loop.simps [simp del]

definition removeOrder :: "bytes32 \<Rightarrow> nat \<Rightarrow> storage \<Rightarrow> storage" where
  "removeOrder pid orderId s =
     s\<lparr>poolOrders := (poolOrders s)(pid := removeOrder_loop (poolOrders s pid) orderId 0)\<rparr>"

definition deactivate :: "nat \<Rightarrow> storage \<Rightarrow> storage" where
  "deactivate orderId s = s\<lparr>orders := (orders s)(orderId := (orders s orderId)\<lparr>active := False\<rparr>)\<rparr>"

definition cancelOrder ::
  "address \<Rightarrow> nat \<Rightarrow> PoolKey \<Rightarrow> world \<Rightarrow> error + (unit \<times> world)" where
  "cancelOrder msg_sender orderId key w0 =
     nonReentrant (\<lambda>w.
       let order = orders (hk w) orderId
       in if orderId \<ge> nextOrderId (hk w) then Inl OrderNotFound
          else if maker order = 0 then Inl OrderNotFound
          else if msg_sender \<noteq> maker order then Inl Unauthorized
          else if \<not> active order then Inl OrderNotActive
          else
            let pid = keccak256_encode key
            in if pid \<noteq> poolId order then Inl PoolMismatch
               else
                 let w1 = upd_hk (deactivate orderId) w;
                     w2 = upd_hk (removeOrder pid orderId) w1;
                     tokenIn = (if sellToken0 order then currency0 key else currency1 key)
                 in case safeTransfer tokenIn (maker order) (unat (amountIn order)) w2 of
                      Inl e \<Rightarrow> Inl e
                    | Inr w3 \<Rightarrow> Inr ((), emit (OrderCancelled orderId (maker order)) w3)) w0"

definition getPoolOrders :: "PoolKey \<Rightarrow> world \<Rightarrow> nat list" where
  "getPoolOrders key w = poolOrders (hk w) (keccak256_encode key)"

text \<open>
  The scan of \<open>beforeSwap\<close>: the first entry among the first \<open>maxIter\<close> that is
  active, not past its expiry, on the opposite side and within the taker's amount.
\<close>

function match_loop ::
  "nat \<Rightarrow> bool \<Rightarrow> uint128 \<Rightarrow> (nat \<Rightarrow> Order) \<Rightarrow> nat list \<Rightarrow> nat \<Rightarrow> nat \<Rightarrow> nat option" where
  "match_loop now zfo takerAmountIn ords orderIds maxIter i =
     (if i < maxIter then
        (let matchedOrderId = orderIds ! i;
             order = ords matchedOrderId
         in if \<not> active order \<or> now > expiry order
              then match_loop now zfo takerAmountIn ords orderIds maxIter (Suc i)
            else if sellToken0 order = zfo
              then match_loop now zfo takerAmountIn ords orderIds maxIter (Suc i)
            else if takerAmountIn < minAmountOut order
              then match_loop now zfo takerAmountIn ords orderIds maxIter (Suc i)
            else Some matchedOrderId)
      else None)"
  by pat_completeness auto
termination
  by (relation "measure (\<lambda>(now, zfo, t, ords, orderIds, maxIter, i). maxIter - i)") auto

declare match_loop.simps [simp del]

text \<open>The body of the loop of \<open>beforeSwap\<close> once a match is found.\<close>

definition settle_match ::
  "address \<Rightarrow> PoolKey \<Rightarrow> SwapParams \<Rightarrow> bytes32 \<Rightarrow> nat \<Rightarrow> world
     \<Rightarrow> error + ((selector \<times> BeforeSwapDelta \<times> nat) \<times> world)" where
  "settle_match sender key params pid matchedOrderId w =
     (let order = orders (hk w) matchedOrderId;
          w1 = upd_hk (deactivate matchedOrderId) w;
          w2 = upd_hk (removeOrder pid matchedOrderId) w1;
          inputCurrency = (if zeroForOne params then currency0 key else currency1 key);
          outputCurrency = (if zeroForOne params then currency1 key else currency0 key);
          takerPays = minAmountOut order
      in case pm_take inputCurrency (maker order) (unat takerPays) w2 of
           Inl e \<Rightarrow> Inl e
         | Inr w3 \<Rightarrow>
             (case safeTransfer outputCurrency (poolManager w3) (unat (amountIn order))
                     (pm_sync outputCurrency w3) of
                Inl e \<Rightarrow> Inl e
              | Inr w4 \<Rightarrow>
                  (case pm_settle w4 of
                     Inl e \<Rightarrow> Inl e
                   | Inr w5 \<Rightarrow>
                       (let w6 = emit (P2PTrade matchedOrderId (maker order) sender
                                        inputCurrency outputCurrency takerPays (amountIn order)) w5;
                            specified = takerPays;
                            x = amountIn order
                        in if x = INT128_MIN then Inl Panic
                           else Inr ((BeforeSwapSelector,
                                      toBeforeSwapDelta specified (- x), 0), w6)))))"

definition beforeSwap ::
  "address \<Rightarrow> nat \<Rightarrow> address \<Rightarrow> PoolKey \<Rightarrow> SwapParams \<Rightarrow> world
     \<Rightarrow> error + ((selector \<times> BeforeSwapDelta \<times> nat) \<times> world)" where
  "beforeSwap msg_sender now sender key params w0 =
     (if msg_sender \<noteq> poolManager w0 then Inl OnlyPoolManager
      else nonReentrant (\<lambda>w.
        if \<not> allowedBots (hk w) sender then Inr ((BeforeSwapSelector, ZERO_DELTA, 0), w)
        else if amountSpecified params \<ge> 0 then Inr ((BeforeSwapSelector, ZERO_DELTA, 0), w)
        else if amountSpecified params = INT256_MIN then Inl AmountOverflow
        else
          let absAmount = nat (- amountSpecified params)
          in if absAmount > INT128_MAX then Inl AmountOverflow
             else
               let takerAmountIn = (of_nat absAmount :: uint128);
                   pid = keccak256_encode key;
                   orderIds = poolOrders (hk w) pid;
                   maxIter = (if length orderIds < MAX_ITERATIONS then length orderIds
                              else MAX_ITERATIONS)
               in case match_loop now (zeroForOne params) takerAmountIn (orders (hk w))
                         orderIds maxIter 0 of
                    Some matchedOrderId \<Rightarrow> settle_match sender key params pid matchedOrderId w
                  | None \<Rightarrow> Inr ((BeforeSwapSelector, ZERO_DELTA, 0), w)) w0)"

text \<open>
  One round of the loop of \<open>purgeExpiredOrders\<close> on an expired entry at slot \<open>i\<close>:
  deactivate, try the refund, credit \<open>unclaimedBalances\<close> when it fails, swap and pop.
\<close>

definition credit_unclaimed :: "address \<Rightarrow> address \<Rightarrow> nat \<Rightarrow> nat \<Rightarrow> world \<Rightarrow> error + world" where
  "credit_unclaimed mk token amount expiredId w =
     (let u = unclaimedBalances (hk w) mk token
      in if u + amount > MAX_UINT256 then Inl Panic
         else Inr (emit (RefundFailed expiredId mk)
                (upd_hk (\<lambda>s. s\<lparr>unclaimedBalances := (unclaimedBalances s)
                           (mk := (unclaimedBalances s mk)(token := u + amount))\<rparr>) w)))"

definition swap_pop :: "bytes32 \<Rightarrow> nat \<Rightarrow> storage \<Rightarrow> storage" where
  "swap_pop pid i s =
     (let ids = poolOrders s pid
      in s\<lparr>poolOrders := (poolOrders s)(pid := butlast (ids[i := ids ! (length ids - 1)]))\<rparr>)"

definition purge_one :: "PoolKey \<Rightarrow> nat \<Rightarrow> world \<Rightarrow> error + world" where
  "purge_one key i w =
     (let pid = keccak256_encode key;
          expiredId = poolOrders (hk w) pid ! i;
          order = orders (hk w) expiredId;
          w1 = upd_hk (deactivate expiredId) w;
          token = (if sellToken0 order then currency0 key else currency1 key);
          w2 = log_call (ERC20_transfer token (maker order) (unat (amountIn order))) w1;
          refunded =
            (case erc20_transfer token (self w2) (maker order) (unat (amountIn order)) w2 of
               Returned True w3 \<Rightarrow> Inr w3
             | Returned False w3 \<Rightarrow>
                 credit_unclaimed (maker order) token (unat (amountIn order)) expiredId w3
             | Reverted \<Rightarrow>
                 credit_unclaimed (maker order) token (unat (amountIn order)) expiredId w2)
      in case refunded of
           Inl e \<Rightarrow> Inl e
         | Inr w4 \<Rightarrow> Inr (emit (OrderExpired expiredId (maker order))
                           (upd_hk (swap_pop pid i) w4)))"

lemma purge_one_poolOrders:
  assumes "purge_one key i w = Inr w'"
  shows "poolOrders (hk w') = poolOrders (hk (upd_hk (swap_pop (keccak256_encode key) i) w))"
  using assms
  by (auto simp: purge_one_def Let_def upd_hk_def swap_pop_def deactivate_def log_call_def
        emit_def erc20_transfer_def token_fails_def move_def credit_unclaimed_def
      split: call_result.splits bool.splits sum.splits if_splits)

lemma purge_one_length:
  assumes "purge_one key i w = Inr w'" and "i < length (poolOrders (hk w) (keccak256_encode key))"
  shows "length (poolOrders (hk w') (keccak256_encode key))
           = length (poolOrders (hk w) (keccak256_encode key)) - 1"
  using purge_one_poolOrders [OF assms(1)]
  by (simp add: upd_hk_def swap_pop_def Let_def)

function purge_loop :: "nat \<Rightarrow> PoolKey \<Rightarrow> nat \<Rightarrow> nat \<Rightarrow> nat \<Rightarrow> world \<Rightarrow> error + world" where
  "purge_loop now key maxPurge i purged w =
     (let ids = poolOrders (hk w) (keccak256_encode key)
      in if i < length ids \<and> purged < maxPurge then
           (let order = orders (hk w) (ids ! i)
            in if active order \<and> now > expiry order then
                 (case purge_one key i w of
                    Inl e \<Rightarrow> Inl e
                  | Inr w' \<Rightarrow> purge_loop now key maxPurge i (Suc purged) w')
               else purge_loop now key maxPurge (Suc i) purged w)
         else Inr w)"
  by pat_completeness auto
termination
proof (relation "measure (\<lambda>(now, key, maxPurge, i, purged, w).
                   length (poolOrders (hk w) (keccak256_encode key)) - i)", goal_cases)
  case 1
  show ?case by simp
next
  case 2
  then show ?case
    by (auto dest: purge_one_length)
next
  case 3
  then show ?case by auto
qed

declare purge_loop.simps [simp del]

definition purgeExpiredOrders ::
  "nat \<Rightarrow> PoolKey \<Rightarrow> nat \<Rightarrow> world \<Rightarrow> error + (unit \<times> world)" where
  "purgeExpiredOrders now key maxPurge w0 =
     nonReentrant (\<lambda>w.
       case purge_loop now key maxPurge 0 0 w of
         Inl e \<Rightarrow> Inl e
       | Inr w' \<Rightarrow> Inr ((), w')) w0"

definition claimRefund :: "address \<Rightarrow> address \<Rightarrow> world \<Rightarrow> error + (unit \<times> world)" where
  "claimRefund msg_sender token w0 =
     nonReentrant (\<lambda>w.
       let amount = unclaimedBalances (hk w) msg_sender token
       in if amount = 0 then Inl InvalidAmounts
          else
            let w1 = upd_hk (\<lambda>s. s\<lparr>unclaimedBalances := (unclaimedBalances s)
                       (msg_sender := (unclaimedBalances s msg_sender)(token := 0))\<rparr>) w
            in case safeTransfer token msg_sender amount w1 of
                 Inl e \<Rightarrow> Inl e
               | Inr w2 \<Rightarrow> Inr ((), w2)) w0"

definition afterSwap :: "address \<Rightarrow> world \<Rightarrow> error + ((selector \<times> int128) \<times> world)" where
  "afterSwap msg_sender w =
     (if msg_sender \<noteq> poolManager w then Inl OnlyPoolManager
      else Inr ((AfterSwapSelector, 0), w))"

section \<open>Transactions\<close>

text \<open>
  A transaction is an entry point with its arguments, sent by \<open>msg_sender\<close> at block time
  \<open>timestamp\<close>. A transaction that reverts leaves the world as it was.
\<close>

datatype entry =
    AddBot address
  | RemoveBot address
  | SetAdmin address
  | AcceptAdmin
  | PostOrder PoolKey bool uint128 uint128 nat
  | CancelOrder nat PoolKey
  | BeforeSwap address PoolKey SwapParams
  | AfterSwap
  | PurgeExpiredOrders PoolKey nat
  | ClaimRefund address
  | UnusedHook

record tx =
  msg_sender :: address
  timestamp :: nat
  entry :: entry

definition discard :: "error + ('a \<times> world) \<Rightarrow> error + world" where
  "discard r = (case r of Inl e \<Rightarrow> Inl e | Inr (x, w) \<Rightarrow> Inr w)"

fun dispatch :: "address \<Rightarrow> nat \<Rightarrow> entry \<Rightarrow> world \<Rightarrow> error + world" where
  "dispatch a t (AddBot b) w = discard (addBot a b w)"
| "dispatch a t (RemoveBot b) w = discard (removeBot a b w)"
| "dispatch a t (SetAdmin b) w = discard (setAdmin a b w)"
| "dispatch a t AcceptAdmin w = discard (acceptAdmin a w)"
| "dispatch a t (PostOrder key sell amtIn minOut duration) w =
     discard (postOrder a t key sell amtIn minOut duration w)"
| "dispatch a t (CancelOrder orderId key) w = discard (cancelOrder a orderId key w)"
| "dispatch a t (BeforeSwap sender key params) w = discard (beforeSwap a t sender key params w)"
| "dispatch a t AfterSwap w = discard (afterSwap a w)"
| "dispatch a t (PurgeExpiredOrders key maxPurge) w = discard (purgeExpiredOrders t key maxPurge w)"
| "dispatch a t (ClaimRefund token) w = discard (claimRefund a token w)"
| "dispatch a t UnusedHook w = Inl HookNotImplemented"

definition exec :: "tx \<Rightarrow> world \<Rightarrow> world" where
  "exec x w = (case dispatch (msg_sender x) (timestamp x) (entry x) w of
                 Inl e \<Rightarrow> w
               | Inr w' \<Rightarrow> w')"

fun run :: "tx list \<Rightarrow> world \<Rightarrow> world" where
  "run [] w = w"
| "run (x # xs) w = run xs (exec x w)"

text \<open>The world right after the constructor: empty storage, nothing logged yet.\<close>

definition no_order :: Order where
  "no_order = \<lparr>maker = 0, sellToken0 = False, amountIn = 0, minAmountOut = 0, expiry = 0,
                active = False, poolId = (0, 0, 0, 0, 0)\<rparr>"

definition constructor :: "address \<Rightarrow> address \<Rightarrow> storage" where
  "constructor adm pm =
     \<lparr>admin = adm, pendingAdmin = 0, allowedBots = (\<lambda>a. False), nextOrderId = 0,
      orders = (\<lambda>i. no_order), poolOrders = (\<lambda>p. []),
      unclaimedBalances = (\<lambda>a t. 0), entered = False\<rparr>"

definition deploy ::
  "address \<Rightarrow> address \<Rightarrow> address \<Rightarrow> (address \<Rightarrow> address \<Rightarrow> nat)
     \<Rightarrow> (address \<Rightarrow> address \<Rightarrow> address \<Rightarrow> nat) \<Rightarrow> (address \<Rightarrow> address \<Rightarrow> bool)
     \<Rightarrow> (address \<Rightarrow> bool) \<Rightarrow> world" where
  "deploy hookAddr adm pm bal allow restr rf =
     \<lparr>hk = constructor adm pm, poolManager = pm, self = hookAddr, balanceOf = bal,
      allowance = allow, restricted = restr, returnsFalse = rf,
      takeCalls = [], settleCalls = [], lastSyncedCurrency = 0, syncBalanceBefore = 0,
      events = [], calls = []\<rparr>"

text \<open>
  The setting of the test suite: the hook at address 1000, admin 1, pool manager 2, the
  bots 3 and 4 whitelisted, tokens 10 and 11, every holder but the hook funded and
  having approved the hook. Token 12 refuses transfers to bot 3.
\<close>

definition poolKey :: PoolKey where
  "poolKey = \<lparr>currency0 = 10, currency1 = 11, fee = 3000, tickSpacing = 60, hooks = 1000\<rparr>"

definition wrongKey :: PoolKey where
  "wrongKey = \<lparr>currency0 = 10, currency1 = 11, fee = 500, tickSpacing = 10, hooks = 1000\<rparr>"

definition badKey :: PoolKey where
  "badKey = \<lparr>currency0 = 12, currency1 = 11, fee = 3000, tickSpacing = 60, hooks = 1000\<rparr>"

definition setUp :: world where
  "setUp = run [\<lparr>msg_sender = 1, timestamp = 1, entry = AddBot 3\<rparr>,
                \<lparr>msg_sender = 1, timestamp = 1, entry = AddBot 4\<rparr>]
             (deploy 1000 1 2 (\<lambda>t a. if a = 1000 then 0 else 10000)
                (\<lambda>t a b. MAX_UINT256) (\<lambda>t a. t = 12 \<and> a = 3) (\<lambda>t. False))"

text \<open>
  Scenario worlds. \<open>posted\<close>: bot 3 has posted order 0, selling 100 of token 10 for at
  least 95 of token 11, for 3600 seconds from time 1. \<open>stuck\<close>: bot 3 has posted an
  order selling 100 of token 12, which expired and was purged while the token refused the
  refund. \<open>released\<close>: the same once token 12 has lifted its restriction.
\<close>

definition swapParams :: SwapParams where
  "swapParams = \<lparr>zeroForOne = False, amountSpecified = - 100, sqrtPriceLimitX96 = 0\<rparr>"

definition posted :: world where
  "posted = run [\<lparr>msg_sender = 3, timestamp = 1,
                   entry = PostOrder poolKey True 100 95 3600\<rparr>] setUp"

definition stuck :: world where
  "stuck = run [\<lparr>msg_sender = 3, timestamp = 1, entry = PostOrder badKey True 100 95 1\<rparr>,
                \<lparr>msg_sender = 5, timestamp = 3, entry = PurgeExpiredOrders badKey 10\<rparr>] setUp"

definition swapTx :: tx where
  "swapTx = \<lparr>msg_sender = 2, timestamp = 5, entry = BeforeSwap 4 poolKey swapParams\<rparr>"

definition matched :: world where
  "matched = run [swapTx] posted"

definition released :: world where
  "released = stuck\<lparr>restricted := (\<lambda>t a. False)\<rparr>"

section \<open>Invariants\<close>

text \<open>
  Agreement of the pool indexes with the \<open>active\<close> flags: no index holds an id twice, an
  id is in the index of pool \<open>p\<close> exactly when its order is active and was created under
  \<open>p\<close>, and only ids already handed out are active.
\<close>

definition index_ok :: "storage \<Rightarrow> bool" where
  "index_ok s \<longleftrightarrow>
     (\<forall>p. distinct (poolOrders s p))
   \<and> (\<forall>p m. m \<in> set (poolOrders s p) \<longleftrightarrow> active (orders s m) \<and> poolId (orders s m) = p)
   \<and> (\<forall>m. active (orders s m) \<longrightarrow> m < nextOrderId s)"

text \<open>
  Custody. \<open>asset_of\<close> is the currency an order holds in escrow (currency 0 or 1 of the
  key it was posted under); \<open>escrowed\<close> sums \<open>amountIn\<close> over the active orders of an
  asset; \<open>owed\<close> sums the unclaimed balances of an asset. \<open>custody_inv\<close>: the indexes
  are in order, the hook is neither the pool manager nor the maker of an active order nor
  owed a refund, and for every asset the hook's balance is the escrow of the active orders
  plus the unclaimed refunds.
\<close>

definition asset_of :: "Order \<Rightarrow> address" where
  "asset_of ord = (if sellToken0 ord then fst (poolId ord) else fst (snd (poolId ord)))"

definition escrowed :: "storage \<Rightarrow> address \<Rightarrow> nat" where
  "escrowed s t =
     (\<Sum>m<nextOrderId s. if active (orders s m) \<and> asset_of (orders s m) = t
                          then unat (amountIn (orders s m)) else 0)"

definition owed :: "storage \<Rightarrow> address \<Rightarrow> nat" where
  "owed s t = (\<Sum>a\<in>{a. unclaimedBalances s a t \<noteq> 0}. unclaimedBalances s a t)"

definition custody_inv :: "world \<Rightarrow> bool" where
  "custody_inv w \<longleftrightarrow>
     index_ok (hk w) \<and> self w \<noteq> poolManager w
   \<and> (\<forall>m. active (orders (hk w) m) \<longrightarrow> maker (orders (hk w) m) \<noteq> self w)
   \<and> (\<forall>t. unclaimedBalances (hk w) (self w) t = 0)
   \<and> (\<forall>t. finite {a. unclaimedBalances (hk w) a t \<noteq> 0})
   \<and> (\<forall>t. balanceOf w t (self w) = escrowed (hk w) t + owed (hk w) t)"

section \<open>Observations used in the statements\<close>

text \<open>The ids of the orders matched so far, read off the \<open>P2PTrade\<close> events.\<close>

fun trade_id :: "event \<Rightarrow> nat list" where
  "trade_id (P2PTrade m mk taker tokenIn tokenOut paid amtOut) = [m]"
| "trade_id (OrderPosted m mk sell a b e) = []"
| "trade_id (OrderCancelled m mk) = []"
| "trade_id (OrderExpired m mk) = []"
| "trade_id (BotAdded a) = []"
| "trade_id (BotRemoved a) = []"
| "trade_id (AdminChanged a b) = []"
| "trade_id (PendingAdminSet a) = []"
| "trade_id (RefundFailed m mk) = []"

definition trades :: "event list \<Rightarrow> nat list" where
  "trades es = concat (map trade_id es)"

text \<open>
  For the purge: the entries of a pool's index that are active and past their expiry,
  the ids a transaction took out of the index, the refund the purge tries for an order,
  and the sum of the amounts that the entries of the index hold in escrow.
\<close>

definition expired_in :: "nat \<Rightarrow> storage \<Rightarrow> bytes32 \<Rightarrow> nat set" where
  "expired_in now s p =
     set (filter (\<lambda>m. active (orders s m) \<and> now > expiry (orders s m)) (poolOrders s p))"

definition removed_ids :: "bytes32 \<Rightarrow> storage \<Rightarrow> storage \<Rightarrow> nat set" where
  "removed_ids p s s' = set (poolOrders s p) - set (poolOrders s' p)"

definition refund_call :: "PoolKey \<Rightarrow> storage \<Rightarrow> nat \<Rightarrow> extcall" where
  "refund_call key s m =
     ERC20_transfer (if sellToken0 (orders s m) then currency0 key else currency1 key)
       (maker (orders s m)) (unat (amountIn (orders s m)))"

definition index_escrow :: "storage \<Rightarrow> bytes32 \<Rightarrow> nat" where
  "index_escrow s p = sum_list (map (\<lambda>m. unat (amountIn (orders s m))) (poolOrders s p))"

text \<open>
  \<open>no_overflow\<close>: crediting the escrow of the whole index to any unclaimed balance stays
  within \<open>uint256\<close>, so that the checked addition of the purge cannot revert.
  \<open>purge_inv\<close> is the invariant of the purge loop at slot \<open>i\<close> after \<open>p\<close> removals: the
  removed ids \<open>rs\<close> were expired entries of the index the loop started with, each got its
  refund call, each is inactive, nothing else changed, and no slot before \<open>i\<close> holds an
  expired entry.
\<close>

definition no_overflow :: "PoolKey \<Rightarrow> storage \<Rightarrow> bool" where
  "no_overflow key s \<longleftrightarrow>
     (\<forall>a t. unclaimedBalances s a t + index_escrow s (keccak256_encode key) \<le> MAX_UINT256)"


text \<open>
  \<open>whale\<close>: the same setting with holders rich enough to escrow more than \<open>2 ^ 127\<close>.
  \<open>bigPosted\<close>: bot 3 has posted order 0 selling \<open>2 ^ 127 + 1\<close> of token 10 for at least 95
  of token 11; \<open>minPosted\<close>: the same with exactly \<open>2 ^ 127\<close>.
\<close>

definition whale :: world where
  "whale = run [\<lparr>msg_sender = 1, timestamp = 1, entry = AddBot 3\<rparr>,
                \<lparr>msg_sender = 1, timestamp = 1, entry = AddBot 4\<rparr>]
             (deploy 1000 1 2 (\<lambda>t a. if a = 1000 then 0 else 2 ^ 130)
                (\<lambda>t a b. MAX_UINT256) (\<lambda>t a. False) (\<lambda>t. False))"

definition bigPosted :: world where
  "bigPosted = run [\<lparr>msg_sender = 3, timestamp = 1,
       entry = PostOrder poolKey True 170141183460469231731687303715884105729 95 3600\<rparr>] whale"

definition minPosted :: world where
  "minPosted = run [\<lparr>msg_sender = 3, timestamp = 1,
       entry = PostOrder poolKey True 170141183460469231731687303715884105728 95 3600\<rparr>] whale"


text \<open>The external calls made between two worlds of one transaction.\<close>

definition new_calls :: "world \<Rightarrow> world \<Rightarrow> (extcall \<times> storage) list" where
  "new_calls w w' = drop (length (calls w)) (calls w')"

section \<open>Basic facts about the model\<close>

lemmas model_defs =
  deploy_def constructor_def exec_def discard_def emit_def upd_hk_def log_call_def move_def
  addBot_def removeBot_def setAdmin_def acceptAdmin_def
  postOrder_def cancelOrder_def beforeSwap_def settle_match_def purgeExpiredOrders_def
  purge_one_def credit_unclaimed_def swap_pop_def claimRefund_def afterSwap_def
  nonReentrant_def push_order_def deactivate_def removeOrder_def
  removeOrder_loop.simps match_loop.simps purge_loop.simps
  safeTransfer_def safeTransferFrom_def erc20_transfer_def erc20_transferFrom_def token_fails_def
  pm_take_def pm_sync_def pm_settle_def
  keccak256_encode_def toBeforeSwapDelta_def ZERO_DELTA_def
  MAX_ORDER_DURATION_def MAX_UINT256_def MAX_ITERATIONS_def INT256_MIN_def INT128_MAX_def
  INT128_MIN_def no_order_def poolKey_def wrongKey_def badKey_def swapParams_def swapTx_def Let_def

lemma upd_hk_fields [simp]:
  "hk (upd_hk f w) = f (hk w)"
  "poolManager (upd_hk f w) = poolManager w"
  "self (upd_hk f w) = self w"
  "balanceOf (upd_hk f w) = balanceOf w"
  "allowance (upd_hk f w) = allowance w"
  "restricted (upd_hk f w) = restricted w"
  "returnsFalse (upd_hk f w) = returnsFalse w"
  "takeCalls (upd_hk f w) = takeCalls w"
  "settleCalls (upd_hk f w) = settleCalls w"
  "lastSyncedCurrency (upd_hk f w) = lastSyncedCurrency w"
  "syncBalanceBefore (upd_hk f w) = syncBalanceBefore w"
  "events (upd_hk f w) = events w"
  "calls (upd_hk f w) = calls w"
  by (simp_all add: upd_hk_def)

lemma emit_fields [simp]:
  "hk (emit e w) = hk w"
  "poolManager (emit e w) = poolManager w"
  "self (emit e w) = self w"
  "balanceOf (emit e w) = balanceOf w"
  "allowance (emit e w) = allowance w"
  "restricted (emit e w) = restricted w"
  "returnsFalse (emit e w) = returnsFalse w"
  "takeCalls (emit e w) = takeCalls w"
  "settleCalls (emit e w) = settleCalls w"
  "lastSyncedCurrency (emit e w) = lastSyncedCurrency w"
  "syncBalanceBefore (emit e w) = syncBalanceBefore w"
  "events (emit e w) = events w @ [e]"
  "calls (emit e w) = calls w"
  by (simp_all add: emit_def)

lemma log_call_fields [simp]:
  "hk (log_call c w) = hk w"
  "poolManager (log_call c w) = poolManager w"
  "self (log_call c w) = self w"
  "balanceOf (log_call c w) = balanceOf w"
  "allowance (log_call c w) = allowance w"
  "restricted (log_call c w) = restricted w"
  "returnsFalse (log_call c w) = returnsFalse w"
  "takeCalls (log_call c w) = takeCalls w"
  "settleCalls (log_call c w) = settleCalls w"
  "lastSyncedCurrency (log_call c w) = lastSyncedCurrency w"
  "syncBalanceBefore (log_call c w) = syncBalanceBefore w"
  "events (log_call c w) = events w"
  "calls (log_call c w) = calls w @ [(c, hk w)]"
  by (simp_all add: log_call_def)

lemma move_fields [simp]:
  "hk (move t a b n w) = hk w"
  "poolManager (move t a b n w) = poolManager w"
  "self (move t a b n w) = self w"
  "allowance (move t a b n w) = allowance w"
  "restricted (move t a b n w) = restricted w"
  "returnsFalse (move t a b n w) = returnsFalse w"
  "takeCalls (move t a b n w) = takeCalls w"
  "settleCalls (move t a b n w) = settleCalls w"
  "lastSyncedCurrency (move t a b n w) = lastSyncedCurrency w"
  "syncBalanceBefore (move t a b n w) = syncBalanceBefore w"
  "events (move t a b n w) = events w"
  "calls (move t a b n w) = calls w"
  by (simp_all add: move_def Let_def)

lemma guard_roundtrip:
  "\<not> entered (hk w) \<Longrightarrow>
     upd_hk (\<lambda>s. s\<lparr>entered := False\<rparr>) (upd_hk (\<lambda>s. s\<lparr>entered := True\<rparr>) w) = w"
  by (simp add: upd_hk_def)

lemma erc20_transfer_frame:
  assumes "erc20_transfer t a b n w = Returned r w'"
  shows "hk w' = hk w" "events w' = events w" "calls w' = calls w"
        "poolManager w' = poolManager w" "self w' = self w"
        "takeCalls w' = takeCalls w" "settleCalls w' = settleCalls w"
        "lastSyncedCurrency w' = lastSyncedCurrency w"
        "syncBalanceBefore w' = syncBalanceBefore w"
        "restricted w' = restricted w" "returnsFalse w' = returnsFalse w"
  using assms
  by (auto simp: erc20_transfer_def token_fails_def split: if_splits)

lemma safeTransfer_frame:
  assumes "safeTransfer t b n w = Inr w'"
  shows "hk w' = hk w" "events w' = events w"
        "calls w' = calls w @ [(ERC20_transfer t b n, hk w)]"
        "poolManager w' = poolManager w" "self w' = self w"
        "takeCalls w' = takeCalls w" "settleCalls w' = settleCalls w"
        "lastSyncedCurrency w' = lastSyncedCurrency w"
        "syncBalanceBefore w' = syncBalanceBefore w"
        "restricted w' = restricted w" "returnsFalse w' = returnsFalse w"
  using assms
  by (auto simp: safeTransfer_def split: call_result.splits bool.splits dest: erc20_transfer_frame)

lemma move_balanceOf:
  "balanceOf (move t a b n w) t' x =
     (if t' \<noteq> t then balanceOf w t' x
      else if x = b then (if a = b then balanceOf w t a - n else balanceOf w t b) + n
      else if x = a then balanceOf w t a - n
      else balanceOf w t x)"
  by (simp add: move_def Let_def)

lemma erc20_transfer_True:
  assumes "erc20_transfer t a b n w = Returned True w'"
  shows "w' = move t a b n w" "balanceOf w t a \<ge> n" "\<not> restricted w t b"
  using assms
  by (auto simp: erc20_transfer_def token_fails_def split: if_splits)

lemma erc20_transfer_False:
  assumes "erc20_transfer t a b n w = Returned False w'"
  shows "w' = w"
  using assms
  by (auto simp: erc20_transfer_def token_fails_def split: if_splits)

lemma safeTransfer_Inr:
  assumes "safeTransfer t b n w = Inr w'"
  shows "w' = move t (self w) b n (log_call (ERC20_transfer t b n) w)"
    and "balanceOf w t (self w) \<ge> n" and "\<not> restricted w t b"
  using assms
  by (auto simp: safeTransfer_def split: call_result.splits bool.splits
           dest: erc20_transfer_True)

lemma pm_take_Inr:
  assumes "pm_take c to n w = Inr w'"
  shows "hk w' = hk w" "events w' = events w"
        "calls w' = calls w @ [(PM_take c to n, hk w)]"
        "poolManager w' = poolManager w" "self w' = self w"
        "takeCalls w' = takeCalls w @ [(c, to, n)]" "settleCalls w' = settleCalls w"
        "restricted w' = restricted w" "returnsFalse w' = returnsFalse w"
        "balanceOf w' = balanceOf (move c (poolManager w) to n w)"
proof -
  let ?w2 = "(log_call (PM_take c to n) w)\<lparr>takeCalls := takeCalls w @ [(c, to, n)]\<rparr>"
  have cases: "(n = 0 \<and> w' = ?w2) \<or> (n > 0 \<and> w' = move c (poolManager w) to n ?w2)"
    using assms
    by (auto simp: pm_take_def Let_def split: if_splits call_result.splits bool.splits
             dest: erc20_transfer_True)
  have zero: "balanceOf (move c (poolManager w) to 0 w) = balanceOf w"
    by (simp add: move_def Let_def)
  show "hk w' = hk w" "events w' = events w"
        "calls w' = calls w @ [(PM_take c to n, hk w)]"
        "poolManager w' = poolManager w" "self w' = self w"
        "takeCalls w' = takeCalls w @ [(c, to, n)]" "settleCalls w' = settleCalls w"
        "restricted w' = restricted w" "returnsFalse w' = returnsFalse w"
    using cases by auto
  show "balanceOf w' = balanceOf (move c (poolManager w) to n w)"
    using cases zero by (auto simp: move_def Let_def)
qed

lemma pm_sync_fields [simp]:
  "hk (pm_sync c w) = hk w" "events (pm_sync c w) = events w"
  "calls (pm_sync c w) = calls w @ [(PM_sync c, hk w)]"
  "poolManager (pm_sync c w) = poolManager w" "self (pm_sync c w) = self w"
  "takeCalls (pm_sync c w) = takeCalls w" "settleCalls (pm_sync c w) = settleCalls w"
  "restricted (pm_sync c w) = restricted w" "returnsFalse (pm_sync c w) = returnsFalse w"
  "balanceOf (pm_sync c w) = balanceOf w"
  "lastSyncedCurrency (pm_sync c w) = c"
  "syncBalanceBefore (pm_sync c w) = balanceOf w c (poolManager w)"
  by (simp_all add: pm_sync_def Let_def)

lemma pm_settle_Inr:
  assumes "pm_settle w = Inr w'"
  shows "hk w' = hk w" "events w' = events w"
        "calls w' = calls w @ [(PM_settle, hk w)]"
        "poolManager w' = poolManager w" "self w' = self w"
        "takeCalls w' = takeCalls w"
        "settleCalls w' = settleCalls w @ [(lastSyncedCurrency w,
            balanceOf w (lastSyncedCurrency w) (poolManager w) - syncBalanceBefore w)]"
        "restricted w' = restricted w" "returnsFalse w' = returnsFalse w"
        "balanceOf w' = balanceOf w"
  using assms
  by (auto simp: pm_settle_def Let_def split: if_splits)

text \<open>What a successful settlement of a match does.\<close>

lemma settle_match_Inr:
  assumes "settle_match sender key params pid m w = Inr (r, w')"
  shows "hk w' = removeOrder pid m (deactivate m (hk w))"
    and "events w' = events w @ [P2PTrade m (maker (orders (hk w) m)) sender
            (if zeroForOne params then currency0 key else currency1 key)
            (if zeroForOne params then currency1 key else currency0 key)
            (minAmountOut (orders (hk w) m)) (amountIn (orders (hk w) m))]"
    and "calls w' = calls w @
           [(PM_take (if zeroForOne params then currency0 key else currency1 key)
               (maker (orders (hk w) m)) (unat (minAmountOut (orders (hk w) m))),
             removeOrder pid m (deactivate m (hk w))),
            (PM_sync (if zeroForOne params then currency1 key else currency0 key),
             removeOrder pid m (deactivate m (hk w))),
            (ERC20_transfer (if zeroForOne params then currency1 key else currency0 key)
               (poolManager w) (unat (amountIn (orders (hk w) m))),
             removeOrder pid m (deactivate m (hk w))),
            (PM_settle, removeOrder pid m (deactivate m (hk w)))]"
    and "takeCalls w' = takeCalls w @
           [(if zeroForOne params then currency0 key else currency1 key,
             maker (orders (hk w) m), unat (minAmountOut (orders (hk w) m)))]"
    and "r = (BeforeSwapSelector,
              toBeforeSwapDelta (minAmountOut (orders (hk w) m)) (- amountIn (orders (hk w) m)), 0)"
    and "amountIn (orders (hk w) m) \<noteq> INT128_MIN"
    and "self w' = self w" and "poolManager w' = poolManager w"
    and "restricted w' = restricted w" and "returnsFalse w' = returnsFalse w"
    and "balanceOf w' = balanceOf
           (move (if zeroForOne params then currency1 key else currency0 key)
              (self w) (poolManager w) (unat (amountIn (orders (hk w) m)))
              (move (if zeroForOne params then currency0 key else currency1 key)
                 (poolManager w) (maker (orders (hk w) m))
                 (unat (minAmountOut (orders (hk w) m))) w))"
proof -
  let ?o = "orders (hk w) m"
  let ?inC = "if zeroForOne params then currency0 key else currency1 key"
  let ?outC = "if zeroForOne params then currency1 key else currency0 key"
  let ?w2 = "upd_hk (removeOrder pid m) (upd_hk (deactivate m) w)"
  obtain w3 w4 w5 where
    t: "pm_take ?inC (maker ?o) (unat (minAmountOut ?o)) ?w2 = Inr w3" and
    s: "safeTransfer ?outC (poolManager w3) (unat (amountIn ?o)) (pm_sync ?outC w3) = Inr w4" and
    e: "pm_settle w4 = Inr w5" and
    x: "amountIn ?o \<noteq> INT128_MIN" and
    r: "r = (BeforeSwapSelector, toBeforeSwapDelta (minAmountOut ?o) (- amountIn ?o), 0)" and
    w': "w' = emit (P2PTrade m (maker ?o) sender ?inC ?outC (minAmountOut ?o) (amountIn ?o)) w5"
    using assms
    by (auto simp: settle_match_def Let_def split: sum.splits if_splits)
  note T = pm_take_Inr [OF t]
  note S = safeTransfer_Inr [OF s]
  note E = pm_settle_Inr [OF e]
  show "hk w' = removeOrder pid m (deactivate m (hk w))"
    by (simp add: w' E S T)
  show "events w' = events w @ [P2PTrade m (maker ?o) sender ?inC ?outC
            (minAmountOut ?o) (amountIn ?o)]"
    by (simp add: w' E S T)
  show "calls w' = calls w @
           [(PM_take ?inC (maker ?o) (unat (minAmountOut ?o)),
             removeOrder pid m (deactivate m (hk w))),
            (PM_sync ?outC, removeOrder pid m (deactivate m (hk w))),
            (ERC20_transfer ?outC (poolManager w) (unat (amountIn ?o)),
             removeOrder pid m (deactivate m (hk w))),
            (PM_settle, removeOrder pid m (deactivate m (hk w)))]"
    by (simp add: w' E S T)
  show "takeCalls w' = takeCalls w @ [(?inC, maker ?o, unat (minAmountOut ?o))]"
    by (simp add: w' E S T)
  show "r = (BeforeSwapSelector, toBeforeSwapDelta (minAmountOut ?o) (- amountIn ?o), 0)"
    by (rule r)
  show "amountIn ?o \<noteq> INT128_MIN" by (rule x)
  show "self w' = self w" "poolManager w' = poolManager w"
       "restricted w' = restricted w" "returnsFalse w' = returnsFalse w"
    by (simp_all add: w' E S T)
  show "balanceOf w' = balanceOf (move ?outC (self w) (poolManager w) (unat (amountIn ?o))
              (move ?inC (poolManager w) (maker ?o) (unat (minAmountOut ?o)) w))"
    by (simp add: w' E S T move_def Let_def)
qed


lemma deactivate_fields [simp]:
  "orders (deactivate m s) = (orders s)(m := (orders s m)\<lparr>active := False\<rparr>)"
  "poolOrders (deactivate m s) = poolOrders s"
  "nextOrderId (deactivate m s) = nextOrderId s"
  "unclaimedBalances (deactivate m s) = unclaimedBalances s"
  "entered (deactivate m s) = entered s"
  "allowedBots (deactivate m s) = allowedBots s"
  "admin (deactivate m s) = admin s"
  "pendingAdmin (deactivate m s) = pendingAdmin s"
  by (simp_all add: deactivate_def)

lemma removeOrder_fields [simp]:
  "orders (removeOrder p m s) = orders s"
  "poolOrders (removeOrder p m s) = (poolOrders s)(p := removeOrder_loop (poolOrders s p) m 0)"
  "nextOrderId (removeOrder p m s) = nextOrderId s"
  "unclaimedBalances (removeOrder p m s) = unclaimedBalances s"
  "entered (removeOrder p m s) = entered s"
  "allowedBots (removeOrder p m s) = allowedBots s"
  "admin (removeOrder p m s) = admin s"
  "pendingAdmin (removeOrder p m s) = pendingAdmin s"
  by (simp_all add: removeOrder_def)

lemma swap_pop_fields [simp]:
  "orders (swap_pop p i s) = orders s"
  "poolOrders (swap_pop p i s) = (poolOrders s)
      (p := butlast ((poolOrders s p)[i := poolOrders s p ! (length (poolOrders s p) - 1)]))"
  "nextOrderId (swap_pop p i s) = nextOrderId s"
  "unclaimedBalances (swap_pop p i s) = unclaimedBalances s"
  "entered (swap_pop p i s) = entered s"
  "allowedBots (swap_pop p i s) = allowedBots s"
  "admin (swap_pop p i s) = admin s"
  "pendingAdmin (swap_pop p i s) = pendingAdmin s"
  by (simp_all add: swap_pop_def Let_def)

lemma push_order_fields [simp]:
  "orders (push_order p m s) = orders s"
  "poolOrders (push_order p m s) = (poolOrders s)(p := poolOrders s p @ [m])"
  "nextOrderId (push_order p m s) = nextOrderId s"
  "unclaimedBalances (push_order p m s) = unclaimedBalances s"
  "entered (push_order p m s) = entered s"
  "allowedBots (push_order p m s) = allowedBots s"
  "admin (push_order p m s) = admin s"
  "pendingAdmin (push_order p m s) = pendingAdmin s"
  by (simp_all add: push_order_def)

lemma entered_commute [simp]:
  "deactivate m (s\<lparr>entered := b\<rparr>) = (deactivate m s)\<lparr>entered := b\<rparr>"
  "removeOrder p m (s\<lparr>entered := b\<rparr>) = (removeOrder p m s)\<lparr>entered := b\<rparr>"
  "swap_pop p i (s\<lparr>entered := b\<rparr>) = (swap_pop p i s)\<lparr>entered := b\<rparr>"
  "push_order p m (s\<lparr>entered := b\<rparr>) = (push_order p m s)\<lparr>entered := b\<rparr>"
  by (simp_all add: deactivate_def removeOrder_def swap_pop_def push_order_def Let_def)

lemma entered_reset: "\<not> entered s \<Longrightarrow> s\<lparr>entered := False\<rparr> = s"
  by simp

text \<open>What the scan returns: the first entry from slot \<open>i\<close> on that passes the four tests.\<close>

lemma match_loop_Some:
  assumes "match_loop now zfo amt ords ids maxIter i = Some m"
  shows "\<exists>j. i \<le> j \<and> j < maxIter \<and> m = ids ! j
           \<and> active (ords m) \<and> \<not> now > expiry (ords m)
           \<and> sellToken0 (ords m) \<noteq> zfo \<and> \<not> amt < minAmountOut (ords m)"
  using assms
proof (induction now zfo amt ords ids maxIter i rule: match_loop.induct)
  case (1 now zfo amt ords ids maxIter i)
  show ?case
  proof (cases "i < maxIter")
    case False
    with "1.prems" show ?thesis by (simp add: match_loop.simps)
  next
    case True
    let ?o = "ords (ids ! i)"
    show ?thesis
    proof (cases "active ?o \<and> \<not> now > expiry ?o \<and> sellToken0 ?o \<noteq> zfo
                    \<and> \<not> amt < minAmountOut ?o")
      case True
      with \<open>i < maxIter\<close> "1.prems" have "m = ids ! i"
        by (simp add: match_loop.simps [of now zfo amt ords ids maxIter i] Let_def)
      with True \<open>i < maxIter\<close> show ?thesis by auto
    next
      case False
      with \<open>i < maxIter\<close> "1.prems"
      have rec: "match_loop now zfo amt ords ids maxIter (Suc i) = Some m"
        by (auto simp: match_loop.simps [of now zfo amt ords ids maxIter i] Let_def
                 split: if_splits)
      from False
      consider (a) "\<not> active ?o \<or> now > expiry ?o"
        | (b) "\<not> (\<not> active ?o \<or> now > expiry ?o)" "sellToken0 ?o = zfo"
        | (c) "\<not> (\<not> active ?o \<or> now > expiry ?o)" "sellToken0 ?o \<noteq> zfo"
              "amt < minAmountOut ?o"
        by blast
      then have "\<exists>j. Suc i \<le> j \<and> j < maxIter \<and> m = ids ! j
           \<and> active (ords m) \<and> \<not> now > expiry (ords m)
           \<and> sellToken0 (ords m) \<noteq> zfo \<and> \<not> amt < minAmountOut (ords m)"
      proof cases
        case a
        then show ?thesis
          using "1.IH"(1) [OF \<open>i < maxIter\<close> refl refl a] rec
          by blast
      next
        case b
        then show ?thesis
          using "1.IH"(2) [OF \<open>i < maxIter\<close> refl refl b] rec
          by blast
      next
        case c
        then show ?thesis
          using "1.IH"(3) [OF \<open>i < maxIter\<close> refl refl c] rec
          by blast
      qed
      then obtain j where j: "Suc i \<le> j" "j < maxIter" "m = ids ! j" "active (ords m)"
          "\<not> now > expiry (ords m)" "sellToken0 (ords m) \<noteq> zfo"
          "\<not> amt < minAmountOut (ords m)"
        by blast
      from j(1) have "i \<le> j" by simp
      with j show ?thesis by blast
    qed
  qed
qed


text \<open>The two ways \<open>beforeSwap\<close> returns: the zero delta on the untouched world, or a match.\<close>

lemma beforeSwap_Inr:
  assumes "beforeSwap caller now sender key params w = Inr (r, w')"
  shows "caller = poolManager w \<and> \<not> entered (hk w) \<and>
     ((r = (BeforeSwapSelector, ZERO_DELTA, 0) \<and> w' = w) \<or>
      (\<exists>m w''. allowedBots (hk w) sender \<and> amountSpecified params < 0
         \<and> nat (- amountSpecified params) \<le> INT128_MAX
         \<and> match_loop now (zeroForOne params) (of_nat (nat (- amountSpecified params)))
              (orders (hk w)) (poolOrders (hk w) (keccak256_encode key))
              (if length (poolOrders (hk w) (keccak256_encode key)) < MAX_ITERATIONS
               then length (poolOrders (hk w) (keccak256_encode key)) else MAX_ITERATIONS) 0
             = Some m
         \<and> settle_match sender key params (keccak256_encode key) m
              (upd_hk (\<lambda>s. s\<lparr>entered := True\<rparr>) w) = Inr (r, w'')
         \<and> w' = upd_hk (\<lambda>s. s\<lparr>entered := False\<rparr>) w''))"
  using assms
  by (auto simp: beforeSwap_def nonReentrant_def Let_def guard_roundtrip
           split: if_splits sum.splits option.splits)


lemma trades_append [simp]: "trades (xs @ ys) = trades xs @ trades ys"
  by (simp add: trades_def)

lemma trades_single [simp]: "trades [e] = trade_id e"
  by (simp add: trades_def)

section \<open>Fall-through of \<open>beforeSwap\<close>\<close>

text \<open>
  C9. When the swap's initiator is not whitelisted, or the swap is not an exact-input swap
  (\<open>amountSpecified\<close> is not negative), \<open>beforeSwap\<close> called by the pool manager returns
  the selector with the zero delta and the world it was given: no order is touched, no
  event emitted, no external call made. A caller other than the pool manager is turned
  away by \<open>onlyPoolManager\<close>. Whoever the caller is, the transaction leaves the world
  unchanged.
\<close>

theorem beforeSwap_fall_through:
  assumes "\<not> allowedBots (hk w) sender \<or> 0 \<le> amountSpecified params"
  shows "(caller = poolManager w \<and> \<not> entered (hk w) \<longrightarrow>
            beforeSwap caller now sender key params w
              = Inr ((BeforeSwapSelector, ZERO_DELTA, 0), w))
       \<and> (caller \<noteq> poolManager w \<longrightarrow>
            beforeSwap caller now sender key params w = Inl OnlyPoolManager)
       \<and> exec \<lparr>msg_sender = caller, timestamp = now, entry = BeforeSwap sender key params\<rparr> w = w"
  using assms
  by (auto simp: beforeSwap_def nonReentrant_def exec_def discard_def guard_roundtrip
           split: sum.splits)

theorem beforeSwap_fall_through_witness:
  "poolOrders (hk posted) (keccak256_encode poolKey) = [0] \<and> active (orders (hk posted) 0)
   \<and> \<not> allowedBots (hk posted) 5 \<and> allowedBots (hk posted) 4
   \<and> beforeSwap 2 5 5 poolKey swapParams posted
       = Inr ((BeforeSwapSelector, ZERO_DELTA, 0), posted)
   \<and> exec \<lparr>msg_sender = 2, timestamp = 5, entry = BeforeSwap 5 poolKey swapParams\<rparr> posted
       = posted
   \<and> beforeSwap 9 5 5 poolKey swapParams posted = Inl OnlyPoolManager
   \<and> beforeSwap 2 5 4 poolKey
        \<lparr>zeroForOne = False, amountSpecified = 100, sqrtPriceLimitX96 = 0\<rparr> posted
       = Inr ((BeforeSwapSelector, ZERO_DELTA, 0), posted)
   \<and> exec \<lparr>msg_sender = 2, timestamp = 5, entry = BeforeSwap 4 poolKey
             \<lparr>zeroForOne = False, amountSpecified = 100, sqrtPriceLimitX96 = 0\<rparr>\<rparr> posted
       = posted
   \<and> beforeSwap 2 5 4 poolKey
        \<lparr>zeroForOne = False, amountSpecified = 0, sqrtPriceLimitX96 = 0\<rparr> posted
       = Inr ((BeforeSwapSelector, ZERO_DELTA, 0), posted)
   \<and> \<not> active (orders (hk (exec swapTx posted)) 0)
   \<and> trades (events (exec swapTx posted)) = [0]"
proof -
  let ?out = "\<lparr>zeroForOne = False, amountSpecified = 100, sqrtPriceLimitX96 = 0\<rparr>"
  let ?nil = "\<lparr>zeroForOne = False, amountSpecified = 0, sqrtPriceLimitX96 = 0\<rparr>"
  have o: "poolOrders (hk posted) (keccak256_encode poolKey) = [0]"
    "active (orders (hk posted) 0)"
    by (simp_all add: posted_def setUp_def model_defs)
  have a: "\<not> allowedBots (hk posted) 5" "allowedBots (hk posted) 4"
    by (simp_all add: posted_def setUp_def model_defs)
  have b: "2 = poolManager posted \<and> \<not> entered (hk posted)" "9 \<noteq> poolManager posted"
    by (simp_all add: posted_def setUp_def model_defs)
  have s: "0 \<le> amountSpecified ?out" "0 \<le> amountSpecified ?nil"
    by simp_all
  have m: "\<not> active (orders (hk (exec swapTx posted)) 0)"
    "trades (events (exec swapTx posted)) = [0]"
    by (simp_all add: swapTx_def swapParams_def posted_def setUp_def model_defs trades_def)
  note t1 = beforeSwap_fall_through [of posted 5 swapParams 2 5 poolKey]
  note t2 = beforeSwap_fall_through [of posted 5 swapParams 9 5 poolKey]
  note t3 = beforeSwap_fall_through [of posted 4 ?out 2 5 poolKey]
  note t4 = beforeSwap_fall_through [of posted 4 ?nil 2 5 poolKey]
  from a(1) b t1 have c1: "beforeSwap 2 5 5 poolKey swapParams posted
       = Inr ((BeforeSwapSelector, ZERO_DELTA, 0), posted)"
    "exec \<lparr>msg_sender = 2, timestamp = 5, entry = BeforeSwap 5 poolKey swapParams\<rparr> posted
       = posted" by blast+
  from a(1) b t2 have c2: "beforeSwap 9 5 5 poolKey swapParams posted = Inl OnlyPoolManager"
    by blast
  from s(1) b t3 have c3: "beforeSwap 2 5 4 poolKey ?out posted
       = Inr ((BeforeSwapSelector, ZERO_DELTA, 0), posted)"
    "exec \<lparr>msg_sender = 2, timestamp = 5, entry = BeforeSwap 4 poolKey ?out\<rparr> posted
       = posted" by blast+
  from s(2) b t4 have c4: "beforeSwap 2 5 4 poolKey ?nil posted
       = Inr ((BeforeSwapSelector, ZERO_DELTA, 0), posted)" by blast
  from o a c1 c2 c3 c4 m show ?thesis by blast
qed

section \<open>Expired orders are never matched\<close>

text \<open>
  C8. An order whose expiry lies strictly before the current time is never the result of
  the scan, from whatever slot the scan starts and wherever the order sits; a call of
  \<open>beforeSwap\<close> that returns leaves the order as it was and emits no trade for it.
\<close>

theorem expired_never_matched:
  assumes "expiry (orders (hk w) oid) < now"
  shows "match_loop now zfo amt (orders (hk w)) ids maxIter i \<noteq> Some oid
       \<and> (\<forall>r w'. beforeSwap caller now sender key params w = Inr (r, w') \<longrightarrow>
             orders (hk w') oid = orders (hk w) oid
           \<and> count_list (trades (events w')) oid = count_list (trades (events w)) oid)"
proof (intro conjI allI impI)
  show "match_loop now zfo amt (orders (hk w)) ids maxIter i \<noteq> Some oid"
    using assms match_loop_Some [of now zfo amt "orders (hk w)" ids maxIter i oid] by auto
next
  fix r w'
  assume b: "beforeSwap caller now sender key params w = Inr (r, w')"
  from beforeSwap_Inr [OF b]
  consider (zero) "w' = w"
    | (hit) m w'' where
        "match_loop now (zeroForOne params) (of_nat (nat (- amountSpecified params)))
              (orders (hk w)) (poolOrders (hk w) (keccak256_encode key))
              (if length (poolOrders (hk w) (keccak256_encode key)) < MAX_ITERATIONS
               then length (poolOrders (hk w) (keccak256_encode key)) else MAX_ITERATIONS) 0
             = Some m"
        "settle_match sender key params (keccak256_encode key) m
              (upd_hk (\<lambda>s. s\<lparr>entered := True\<rparr>) w) = Inr (r, w'')"
        "w' = upd_hk (\<lambda>s. s\<lparr>entered := False\<rparr>) w''"
    by blast
  then have "orders (hk w') oid = orders (hk w) oid
           \<and> count_list (trades (events w')) oid = count_list (trades (events w)) oid"
  proof cases
    case zero
    then show ?thesis by simp
  next
    case hit
    from match_loop_Some [OF hit(1)] assms have ne: "m \<noteq> oid" by auto
    note S = settle_match_Inr [OF hit(2)]
    from ne show ?thesis
      by (simp add: hit(3) S(1) S(2))
  qed
  then show "orders (hk w') oid = orders (hk w) oid"
    and "count_list (trades (events w')) oid = count_list (trades (events w)) oid"
    by simp_all
qed

theorem expired_never_matched_witness:
  "expiry (orders (hk posted) 0) < 3602
   \<and> match_loop 3602 False 100 (orders (hk posted)) [0] 1 0 \<noteq> Some 0
   \<and> beforeSwap 2 3602 4 poolKey swapParams posted
        = Inr ((BeforeSwapSelector, ZERO_DELTA, 0), posted)
   \<and> active (orders (hk posted) 0)
   \<and> count_list (trades (events posted)) 0 = 0"
proof -
  have h: "expiry (orders (hk posted) 0) < 3602"
    by (simp add: posted_def setUp_def model_defs)
  have b: "beforeSwap 2 3602 4 poolKey swapParams posted
        = Inr ((BeforeSwapSelector, ZERO_DELTA, 0), posted)"
    by (simp add: posted_def setUp_def model_defs)
  have c: "active (orders (hk posted) 0)" "count_list (trades (events posted)) 0 = 0"
    by (simp_all add: posted_def setUp_def model_defs trades_def)
  from expired_never_matched [OF h, of False 100 "[0]" 1 0 2 4 poolKey swapParams] h b c
  show ?thesis by blast
qed

section \<open>Cross-market cancellation\<close>

text \<open>
  C5. For an existing active order, \<open>cancelOrder\<close> with a pool key whose hash differs
  from the order's stored \<open>poolId\<close> reverts, with \<open>PoolMismatch\<close> when the caller is the
  maker, and the transaction leaves the whole world unchanged: the order's flag, the
  indexes and every balance.
\<close>

theorem cancelOrder_cross_market:
  assumes "orderId < nextOrderId (hk w)"
      and "active (orders (hk w) orderId)"
      and "keccak256_encode key \<noteq> poolId (orders (hk w) orderId)"
  shows "(\<exists>e. cancelOrder caller orderId key w = Inl e)
       \<and> (caller = maker (orders (hk w) orderId) \<and> caller \<noteq> 0 \<and> \<not> entered (hk w) \<longrightarrow>
            cancelOrder caller orderId key w = Inl PoolMismatch)
       \<and> exec \<lparr>msg_sender = caller, timestamp = now, entry = CancelOrder orderId key\<rparr> w = w"
  using assms
  by (auto simp: cancelOrder_def nonReentrant_def exec_def discard_def Let_def)

theorem cancelOrder_cross_market_witness:
  "0 < nextOrderId (hk posted) \<and> active (orders (hk posted) 0)
   \<and> keccak256_encode wrongKey \<noteq> poolId (orders (hk posted) 0)
   \<and> cancelOrder 3 0 wrongKey posted = Inl PoolMismatch
   \<and> exec \<lparr>msg_sender = 3, timestamp = 9, entry = CancelOrder 0 wrongKey\<rparr> posted = posted"
proof -
  have h: "0 < nextOrderId (hk posted)" "active (orders (hk posted) 0)"
    "keccak256_encode wrongKey \<noteq> poolId (orders (hk posted) 0)"
    by (simp_all add: posted_def setUp_def model_defs)
  have m: "3 = maker (orders (hk posted) 0) \<and> (3::nat) \<noteq> 0 \<and> \<not> entered (hk posted)"
    by (simp add: posted_def setUp_def model_defs)
  from cancelOrder_cross_market [OF h, of 3 9] h m show ?thesis by blast
qed

section \<open>Refund claims\<close>

text \<open>
  C4. A successful \<open>claimRefund\<close> leaves the caller's unclaimed balance of the token at
  zero, so that the same call right after it reverts with \<open>InvalidAmounts\<close>; whether the
  first call succeeded or reverted, the second transaction changes nothing.
\<close>

theorem claimRefund_idempotent:
  shows "(\<forall>w1. claimRefund caller token w = Inr ((), w1) \<longrightarrow>
            unclaimedBalances (hk w1) caller token = 0
          \<and> claimRefund caller token w1 = Inl InvalidAmounts)
       \<and> exec \<lparr>msg_sender = caller, timestamp = t2, entry = ClaimRefund token\<rparr>
           (exec \<lparr>msg_sender = caller, timestamp = t1, entry = ClaimRefund token\<rparr> w)
         = exec \<lparr>msg_sender = caller, timestamp = t1, entry = ClaimRefund token\<rparr> w"
proof -
  have first: "unclaimedBalances (hk w1) caller token = 0
          \<and> claimRefund caller token w1 = Inl InvalidAmounts"
    if c: "claimRefund caller token w = Inr ((), w1)" for w1
  proof -
    from c obtain w2 where
      s: "safeTransfer token caller (unclaimedBalances (hk w) caller token)
            (upd_hk (\<lambda>s. s\<lparr>unclaimedBalances := (unclaimedBalances s)
                       (caller := (unclaimedBalances s caller)(token := 0))\<rparr>)
               (upd_hk (\<lambda>s. s\<lparr>entered := True\<rparr>) w)) = Inr w2"
      and w1: "w1 = upd_hk (\<lambda>s. s\<lparr>entered := False\<rparr>) w2"
      by (auto simp: claimRefund_def nonReentrant_def Let_def split: if_splits sum.splits)
    from safeTransfer_frame(1) [OF s] w1
    have z: "unclaimedBalances (hk w1) caller token = 0" and e: "\<not> entered (hk w1)"
      by simp_all
    from z e show ?thesis
      by (simp add: claimRefund_def nonReentrant_def Let_def)
  qed
  have second: "exec \<lparr>msg_sender = caller, timestamp = t2, entry = ClaimRefund token\<rparr>
           (exec \<lparr>msg_sender = caller, timestamp = t1, entry = ClaimRefund token\<rparr> w)
         = exec \<lparr>msg_sender = caller, timestamp = t1, entry = ClaimRefund token\<rparr> w"
  proof (cases "claimRefund caller token w")
    case (Inl e)
    then show ?thesis by (simp add: exec_def discard_def)
  next
    case (Inr p)
    then obtain w1 where p: "claimRefund caller token w = Inr ((), w1)"
      by (cases p) auto
    from first [OF p] p show ?thesis by (simp add: exec_def discard_def)
  qed
  from first second show ?thesis by blast
qed

theorem claimRefund_idempotent_witness:
  "unclaimedBalances (hk released) 3 12 = 100
   \<and> (\<exists>w1. claimRefund 3 12 released = Inr ((), w1)
          \<and> unclaimedBalances (hk w1) 3 12 = 0
          \<and> balanceOf w1 12 3 = 10000
          \<and> claimRefund 3 12 w1 = Inl InvalidAmounts)"
proof -
  have u: "unclaimedBalances (hk released) 3 12 = 100"
    by (simp add: released_def stuck_def setUp_def model_defs)
  have "\<exists>w1. claimRefund 3 12 released = Inr ((), w1) \<and> balanceOf w1 12 3 = 10000"
    by (simp add: released_def stuck_def setUp_def model_defs)
  then obtain w1 where c: "claimRefund 3 12 released = Inr ((), w1)"
    and b: "balanceOf w1 12 3 = 10000"
    by blast
  from claimRefund_idempotent [of 3 12 released 0 0] c
  have "unclaimedBalances (hk w1) 3 12 = 0 \<and> claimRefund 3 12 w1 = Inl InvalidAmounts"
    by blast
  with u c b show ?thesis by blast
qed

lemma trades_Nil [simp]: "trades [] = []"
  by (simp add: trades_def)

lemma trades_Cons [simp]: "trades (e # es) = trade_id e @ trades es"
  by (simp add: trades_def)

section \<open>Swap and pop\<close>

lemma swap_pop_mset:
  assumes "i < length ids"
  shows "mset (butlast (ids[i := ids ! (length ids - 1)])) = mset ids - {#ids ! i#}"
proof -
  from assms have ne: "ids \<noteq> []" by auto
  define xs where "xs = butlast ids"
  define l where "l = last ids"
  have ids: "ids = xs @ [l]" using ne by (simp add: xs_def l_def)
  have lst: "ids ! (length ids - 1) = l" by (simp add: ids)
  show ?thesis
  proof (cases "i < length xs")
    case True
    then have "butlast (ids[i := l]) = xs[i := l]"
      by (simp add: ids list_update_append)
    moreover have "ids ! i = xs ! i" using True by (simp add: ids nth_append)
    moreover have "xs ! i \<in># mset xs" using True by simp
    ultimately show ?thesis
      using True by (simp add: lst mset_update ids)
  next
    case False
    with assms have "i = length xs" by (simp add: ids)
    then show ?thesis by (simp add: lst ids)
  qed
qed

lemma removeOrder_loop_mset:
  "mset (removeOrder_loop ids x i)
     = (if x \<in> set (drop i ids) then mset ids - {#x#} else mset ids)"
proof (induction ids x i rule: removeOrder_loop.induct)
  case (1 ids x i)
  show ?case
  proof (cases "i < length ids")
    case False
    then show ?thesis by (simp add: removeOrder_loop.simps [of ids x i])
  next
    case True
    then have d: "drop i ids = ids ! i # drop (Suc i) ids"
      by (simp add: Cons_nth_drop_Suc)
    show ?thesis
    proof (cases "ids ! i = x")
      case True
      with \<open>i < length ids\<close> swap_pop_mset [of i ids] d show ?thesis
        by (simp add: removeOrder_loop.simps [of ids x i])
    next
      case False
      with \<open>i < length ids\<close> "1.IH" d show ?thesis
        by (simp add: removeOrder_loop.simps [of ids x i])
    qed
  qed
qed

lemma removeOrder_loop_mset0: "mset (removeOrder_loop ids x 0) = mset ids - {#x#}"
  by (simp add: removeOrder_loop_mset diff_single_trivial)

lemma mset_remove_distinct:
  assumes "mset ys = mset xs - {#x#}" and "distinct xs"
  shows "distinct ys" and "set ys = set xs - {x}"
proof -
  have c: "count (mset ys) a = count (mset xs) a - (if a = x then 1 else 0)" for a
    by (simp add: assms(1))
  have cx: "count (mset xs) a = (if a \<in> set xs then 1 else 0)" for a
    using assms(2) by (simp add: distinct_count_atmost_1)
  have "count (mset ys) a \<le> 1" for a
    by (simp add: c cx)
  then show "distinct ys"
    by (metis count_mset_0_iff distinct_count_atmost_1 le_Suc_eq le_zero_eq One_nat_def)
  have "a \<in> set ys \<longleftrightarrow> a \<in> set xs - {x}" for a
  proof -
    have "a \<in> set ys \<longleftrightarrow> count (mset ys) a > 0"
      by (simp add: count_greater_zero_iff)
    also have "\<dots> \<longleftrightarrow> a \<in> set xs - {x}"
      by (cases "a = x"; cases "a \<in> set xs"; simp add: c cx)
    finally show ?thesis .
  qed
  then show "set ys = set xs - {x}" by blast
qed


section \<open>The index invariant\<close>

lemma index_ok_cong:
  assumes "orders s' = orders s" "poolOrders s' = poolOrders s" "nextOrderId s' = nextOrderId s"
  shows "index_ok s' = index_ok s"
  by (simp add: index_ok_def assms)

lemma index_okD:
  assumes "index_ok s"
  shows "distinct (poolOrders s p)"
    and "m \<in> set (poolOrders s p) \<longleftrightarrow> active (orders s m) \<and> poolId (orders s m) = p"
    and "active (orders s m) \<Longrightarrow> m < nextOrderId s"
  using assms unfolding index_ok_def by blast+

lemma index_okI:
  assumes "\<And>p. distinct (poolOrders s p)"
    and "\<And>p m. m \<in> set (poolOrders s p) \<longleftrightarrow> active (orders s m) \<and> poolId (orders s m) = p"
    and "\<And>m. active (orders s m) \<Longrightarrow> m < nextOrderId s"
  shows "index_ok s"
  using assms unfolding index_ok_def by blast

lemma index_ok_constructor: "index_ok (constructor adm pm)"
  by (simp add: index_ok_def constructor_def no_order_def)

lemma index_ok_post:
  assumes ok: "index_ok s"
    and o: "orders s' = (orders s)(nextOrderId s := ord)" "active ord" "poolId ord = pid"
    and p: "poolOrders s' = (poolOrders s)(pid := poolOrders s pid @ [nextOrderId s])"
    and n: "nextOrderId s' = Suc (nextOrderId s)"
  shows "index_ok s'"
proof (rule index_okI)
  let ?n = "nextOrderId s"
  note D = index_okD [OF ok]
  have fresh: "\<not> active (orders s ?n)" using D(3) [of ?n] by auto
  then have fresh2: "?n \<notin> set (poolOrders s q)" for q using D(2) [of ?n q] by simp
  show "distinct (poolOrders s' q)" for q
    using D(1) [of q] fresh2 [of q] by (cases "q = pid") (simp_all add: p)
  show "(m \<in> set (poolOrders s' q)) = (active (orders s' m) \<and> poolId (orders s' m) = q)" for q m
  proof (cases "m = ?n")
    case True
    with fresh2 [of q] o show ?thesis by (cases "q = pid") (auto simp: p)
  next
    case False
    with D(2) [of m q] show ?thesis by (cases "q = pid") (simp_all add: p o)
  qed
  show "m < nextOrderId s'" if "active (orders s' m)" for m
  proof (cases "m = ?n")
    case True
    then show ?thesis by (simp add: n)
  next
    case False
    with that D(3) [of m] show ?thesis by (simp add: o n)
  qed
qed

lemma index_ok_remove:
  assumes ok: "index_ok s"
    and m: "m \<in> set (poolOrders s pid)"
    and o: "orders s' = (orders s)(m := (orders s m)\<lparr>active := False\<rparr>)"
    and p: "poolOrders s' = (poolOrders s)(pid := ids')"
           "mset ids' = mset (poolOrders s pid) - {#m#}"
    and n: "nextOrderId s' = nextOrderId s"
  shows "index_ok s'"
proof (rule index_okI)
  note D = index_okD [OF ok]
  note R = mset_remove_distinct [OF p(2) D(1)]
  from D(2) [of m pid] m have mp: "active (orders s m)" "poolId (orders s m) = pid"
    by auto
  show "distinct (poolOrders s' q)" for q
    using D(1) [of q] R(1) by (cases "q = pid") (simp_all add: p(1))
  show "(k \<in> set (poolOrders s' q)) = (active (orders s' k) \<and> poolId (orders s' k) = q)" for q k
  proof (cases "k = m")
    case True
    have "m \<notin> set (poolOrders s' q)"
    proof (cases "q = pid")
      case True
      then show ?thesis using R(2) by (simp add: p(1))
    next
      case False
      then show ?thesis using D(2) [of m q] mp by (simp add: p(1))
    qed
    with True show ?thesis by (simp add: o)
  next
    case False
    show ?thesis
    proof (cases "q = pid")
      case True
      with False D(2) [of k pid] R(2) show ?thesis by (simp add: p(1) o)
    next
      case qf: False
      with False D(2) [of k q] show ?thesis by (simp add: p(1) o)
    qed
  qed
  show "k < nextOrderId s'" if "active (orders s' k)" for k
  proof (cases "k = m")
    case True
    with that show ?thesis by (simp add: o)
  next
    case False
    with that D(3) [of k] show ?thesis by (simp add: o n)
  qed
qed


section \<open>What the entry points do when they return\<close>

lemma safeTransferFrom_Inr:
  assumes "safeTransferFrom t src dst n w = Inr w'"
  shows "hk w' = hk w" "events w' = events w"
        "calls w' = calls w @ [(ERC20_transferFrom t src dst n, hk w)]"
        "poolManager w' = poolManager w" "self w' = self w"
        "takeCalls w' = takeCalls w" "settleCalls w' = settleCalls w"
        "restricted w' = restricted w" "returnsFalse w' = returnsFalse w"
        "balanceOf w' = balanceOf (move t src dst n w)"
        "n \<le> balanceOf w t src"
  using assms
  by (auto simp: safeTransferFrom_def erc20_transferFrom_def token_fails_def Let_def move_def
           split: call_result.splits bool.splits if_splits)

lemma postOrder_Inr:
  assumes "postOrder a now key sell amtIn minOut dur w = Inr (n, w')"
  shows "n = nextOrderId (hk w)"
    and "orders (hk w') = (orders (hk w))(n :=
           \<lparr>maker = a, sellToken0 = sell, amountIn = amtIn, minAmountOut = minOut,
            expiry = now + dur, active = True, poolId = keccak256_encode key\<rparr>)"
    and "poolOrders (hk w') = (poolOrders (hk w))(keccak256_encode key :=
           poolOrders (hk w) (keccak256_encode key) @ [n])"
    and "nextOrderId (hk w') = Suc n"
    and "unclaimedBalances (hk w') = unclaimedBalances (hk w)"
    and "\<not> entered (hk w')" and "\<not> entered (hk w)"
    and "allowedBots (hk w') = allowedBots (hk w)"
    and "self w' = self w" and "poolManager w' = poolManager w"
    and "restricted w' = restricted w" and "returnsFalse w' = returnsFalse w"
    and "balanceOf w' = balanceOf (move (if sell then currency0 key else currency1 key)
                          a (self w) (unat amtIn) w)"
    and "unat amtIn \<le> balanceOf w (if sell then currency0 key else currency1 key) a"
    and "events w' = events w @ [OrderPosted n a sell amtIn minOut (now + dur)]"
proof -
  let ?tok = "if sell then currency0 key else currency1 key"
  let ?w1 = "upd_hk (\<lambda>s. s\<lparr>nextOrderId := nextOrderId (hk w) + 1,
               orders := (orders s)(nextOrderId (hk w) :=
                 \<lparr>maker = a, sellToken0 = sell, amountIn = amtIn, minAmountOut = minOut,
                  expiry = now + dur, active = True, poolId = keccak256_encode key\<rparr>)\<rparr>)
              (upd_hk (\<lambda>s. s\<lparr>entered := True\<rparr>) w)"
  from assms obtain w2 where
    n: "n = nextOrderId (hk w)" and e: "\<not> entered (hk w)" and
    t: "safeTransferFrom ?tok a (self ?w1) (unat amtIn) ?w1 = Inr w2" and
    w': "w' = upd_hk (\<lambda>s. s\<lparr>entered := False\<rparr>)
               (emit (OrderPosted n a sell amtIn minOut (now + dur))
                  (upd_hk (push_order (keccak256_encode key) n) w2))"
    by (auto simp: postOrder_def nonReentrant_def Let_def split: if_splits sum.splits)
  note T = safeTransferFrom_Inr [OF t]
  show "n = nextOrderId (hk w)" by (rule n)
  show "\<not> entered (hk w)" by (rule e)
  show "orders (hk w') = (orders (hk w))(n :=
           \<lparr>maker = a, sellToken0 = sell, amountIn = amtIn, minAmountOut = minOut,
            expiry = now + dur, active = True, poolId = keccak256_encode key\<rparr>)"
    and "poolOrders (hk w') = (poolOrders (hk w))(keccak256_encode key :=
           poolOrders (hk w) (keccak256_encode key) @ [n])"
    and "nextOrderId (hk w') = Suc n"
    and "unclaimedBalances (hk w') = unclaimedBalances (hk w)"
    and "\<not> entered (hk w')"
    and "allowedBots (hk w') = allowedBots (hk w)"
    and "self w' = self w" and "poolManager w' = poolManager w"
    and "restricted w' = restricted w" and "returnsFalse w' = returnsFalse w"
    and "events w' = events w @ [OrderPosted n a sell amtIn minOut (now + dur)]"
    by (simp_all add: w' T n)
  show "balanceOf w' = balanceOf (move ?tok a (self w) (unat amtIn) w)"
    by (simp add: w' T move_def Let_def)
  show "unat amtIn \<le> balanceOf w ?tok a"
    using T(11) by simp
qed

lemma cancelOrder_Inr:
  assumes "cancelOrder a m key w = Inr (u, w')"
  shows "m < nextOrderId (hk w)" and "a = maker (orders (hk w) m)"
    and "active (orders (hk w) m)" and "poolId (orders (hk w) m) = keccak256_encode key"
    and "orders (hk w') = (orders (hk w))(m := (orders (hk w) m)\<lparr>active := False\<rparr>)"
    and "poolOrders (hk w') = (poolOrders (hk w))(keccak256_encode key :=
           removeOrder_loop (poolOrders (hk w) (keccak256_encode key)) m 0)"
    and "nextOrderId (hk w') = nextOrderId (hk w)"
    and "unclaimedBalances (hk w') = unclaimedBalances (hk w)"
    and "\<not> entered (hk w')" and "\<not> entered (hk w)"
    and "allowedBots (hk w') = allowedBots (hk w)"
    and "self w' = self w" and "poolManager w' = poolManager w"
    and "restricted w' = restricted w" and "returnsFalse w' = returnsFalse w"
    and "balanceOf w' = balanceOf
           (move (if sellToken0 (orders (hk w) m) then currency0 key else currency1 key)
              (self w) a (unat (amountIn (orders (hk w) m))) w)"
    and "unat (amountIn (orders (hk w) m))
           \<le> balanceOf w (if sellToken0 (orders (hk w) m) then currency0 key else currency1 key)
                (self w)"
    and "events w' = events w @ [OrderCancelled m a]"
proof -
  let ?o = "orders (hk w) m"
  let ?tok = "if sellToken0 ?o then currency0 key else currency1 key"
  let ?w2 = "upd_hk (removeOrder (keccak256_encode key) m)
              (upd_hk (deactivate m) (upd_hk (\<lambda>s. s\<lparr>entered := True\<rparr>) w))"
  from assms obtain w3 where
    c: "m < nextOrderId (hk w)" "a = maker ?o" "active ?o"
       "poolId ?o = keccak256_encode key" "\<not> entered (hk w)" and
    t: "safeTransfer ?tok (maker ?o) (unat (amountIn ?o)) ?w2 = Inr w3" and
    w': "w' = upd_hk (\<lambda>s. s\<lparr>entered := False\<rparr>) (emit (OrderCancelled m (maker ?o)) w3)"
    by (auto simp: cancelOrder_def nonReentrant_def Let_def split: if_splits sum.splits)
  note T = safeTransfer_Inr [OF t]
  show "m < nextOrderId (hk w)" "a = maker (orders (hk w) m)"
    "active (orders (hk w) m)" "poolId (orders (hk w) m) = keccak256_encode key"
    "\<not> entered (hk w)"
    by (rule c)+
  show "orders (hk w') = (orders (hk w))(m := (orders (hk w) m)\<lparr>active := False\<rparr>)"
    and "poolOrders (hk w') = (poolOrders (hk w))(keccak256_encode key :=
           removeOrder_loop (poolOrders (hk w) (keccak256_encode key)) m 0)"
    and "nextOrderId (hk w') = nextOrderId (hk w)"
    and "unclaimedBalances (hk w') = unclaimedBalances (hk w)"
    and "\<not> entered (hk w')"
    and "allowedBots (hk w') = allowedBots (hk w)"
    and "self w' = self w" and "poolManager w' = poolManager w"
    and "restricted w' = restricted w" and "returnsFalse w' = returnsFalse w"
    and "events w' = events w @ [OrderCancelled m a]"
    by (simp_all add: w' T(1) c(2))
  show "balanceOf w' = balanceOf (move ?tok (self w) a (unat (amountIn ?o)) w)"
    by (simp add: w' T(1) c(2) move_def Let_def)
  show "unat (amountIn ?o) \<le> balanceOf w ?tok (self w)"
    using T(2) by simp
qed

lemma claimRefund_Inr:
  assumes "claimRefund a t w = Inr (u, w')"
  shows "orders (hk w') = orders (hk w)" and "poolOrders (hk w') = poolOrders (hk w)"
    and "nextOrderId (hk w') = nextOrderId (hk w)"
    and "unclaimedBalances (hk w') = (unclaimedBalances (hk w))
           (a := (unclaimedBalances (hk w) a)(t := 0))"
    and "\<not> entered (hk w')" and "\<not> entered (hk w)"
    and "allowedBots (hk w') = allowedBots (hk w)"
    and "self w' = self w" and "poolManager w' = poolManager w"
    and "restricted w' = restricted w" and "returnsFalse w' = returnsFalse w"
    and "balanceOf w' = balanceOf (move t (self w) a (unclaimedBalances (hk w) a t) w)"
    and "unclaimedBalances (hk w) a t \<le> balanceOf w t (self w)"
    and "0 < unclaimedBalances (hk w) a t"
    and "events w' = events w"
proof -
  let ?w1 = "upd_hk (\<lambda>s. s\<lparr>unclaimedBalances := (unclaimedBalances s)
                       (a := (unclaimedBalances s a)(t := 0))\<rparr>)
               (upd_hk (\<lambda>s. s\<lparr>entered := True\<rparr>) w)"
  from assms obtain w2 where
    c: "0 < unclaimedBalances (hk w) a t" "\<not> entered (hk w)" and
    s: "safeTransfer t a (unclaimedBalances (hk w) a t) ?w1 = Inr w2" and
    w': "w' = upd_hk (\<lambda>s. s\<lparr>entered := False\<rparr>) w2"
    by (auto simp: claimRefund_def nonReentrant_def Let_def split: if_splits sum.splits)
  note T = safeTransfer_Inr [OF s]
  show "0 < unclaimedBalances (hk w) a t" "\<not> entered (hk w)" by (rule c)+
  show "orders (hk w') = orders (hk w)" and "poolOrders (hk w') = poolOrders (hk w)"
    and "nextOrderId (hk w') = nextOrderId (hk w)"
    and "unclaimedBalances (hk w') = (unclaimedBalances (hk w))
           (a := (unclaimedBalances (hk w) a)(t := 0))"
    and "\<not> entered (hk w')"
    and "allowedBots (hk w') = allowedBots (hk w)"
    and "self w' = self w" and "poolManager w' = poolManager w"
    and "restricted w' = restricted w" and "returnsFalse w' = returnsFalse w"
    and "events w' = events w"
    by (simp_all add: w' T(1))
  show "balanceOf w' = balanceOf (move t (self w) a (unclaimedBalances (hk w) a t) w)"
    by (simp add: w' T(1) move_def Let_def)
  show "unclaimedBalances (hk w) a t \<le> balanceOf w t (self w)"
    using T(2) by simp
qed


lemma purge_one_Inr:
  fixes key i w
  defines "pid \<equiv> keccak256_encode key"
  defines "ids \<equiv> poolOrders (hk w) pid"
  defines "e \<equiv> ids ! i"
  defines "ord \<equiv> orders (hk w) e"
  defines "t \<equiv> (if sellToken0 ord then currency0 key else currency1 key)"
  defines "a \<equiv> unat (amountIn ord)"
  assumes r: "purge_one key i w = Inr w'"
  shows "orders (hk w') = (orders (hk w))(e := ord\<lparr>active := False\<rparr>)"
    and "poolOrders (hk w') = (poolOrders (hk w))
           (pid := butlast (ids[i := ids ! (length ids - 1)]))"
    and "nextOrderId (hk w') = nextOrderId (hk w)"
    and "entered (hk w') = entered (hk w)"
    and "allowedBots (hk w') = allowedBots (hk w)"
    and "self w' = self w" and "poolManager w' = poolManager w"
    and "restricted w' = restricted w" and "returnsFalse w' = returnsFalse w"
    and "calls w' = calls w @ [(ERC20_transfer t (maker ord) a, deactivate e (hk w))]"
    and "(\<not> restricted w t (maker ord) \<and> a \<le> balanceOf w t (self w)
          \<and> balanceOf w' = balanceOf (move t (self w) (maker ord) a w)
          \<and> unclaimedBalances (hk w') = unclaimedBalances (hk w)
          \<and> events w' = events w @ [OrderExpired e (maker ord)])
       \<or> ((restricted w t (maker ord) \<or> balanceOf w t (self w) < a)
          \<and> balanceOf w' = balanceOf w
          \<and> unclaimedBalances (hk w') = (unclaimedBalances (hk w))
               (maker ord := (unclaimedBalances (hk w) (maker ord))
                  (t := unclaimedBalances (hk w) (maker ord) t + a))
          \<and> unclaimedBalances (hk w) (maker ord) t + a \<le> MAX_UINT256
          \<and> events w' = events w @ [RefundFailed e (maker ord), OrderExpired e (maker ord)])"
proof -
  let ?w2 = "log_call (ERC20_transfer t (maker ord) a) (upd_hk (deactivate e) w)"
  let ?credit = "upd_hk (\<lambda>s. s\<lparr>unclaimedBalances := (unclaimedBalances s)
                    (maker ord := (unclaimedBalances s (maker ord))
                       (t := unclaimedBalances (hk w) (maker ord) t + a))\<rparr>) ?w2"
  have "(\<not> restricted w t (maker ord) \<and> a \<le> balanceOf w t (self w)
          \<and> w' = emit (OrderExpired e (maker ord))
                   (upd_hk (swap_pop pid i) (move t (self w) (maker ord) a ?w2)))
      \<or> ((restricted w t (maker ord) \<or> balanceOf w t (self w) < a)
          \<and> unclaimedBalances (hk w) (maker ord) t + a \<le> MAX_UINT256
          \<and> w' = emit (OrderExpired e (maker ord))
                   (upd_hk (swap_pop pid i) (emit (RefundFailed e (maker ord)) ?credit)))"
    using r
    unfolding purge_one_def pid_def ids_def e_def ord_def t_def a_def
    by (auto simp: Let_def erc20_transfer_def token_fails_def credit_unclaimed_def
             split: if_splits sum.splits call_result.splits bool.splits)
  then consider
    (ok) "\<not> restricted w t (maker ord)" "a \<le> balanceOf w t (self w)"
         "w' = emit (OrderExpired e (maker ord))
                   (upd_hk (swap_pop pid i) (move t (self w) (maker ord) a ?w2))"
    | (fail) "restricted w t (maker ord) \<or> balanceOf w t (self w) < a"
         "unclaimedBalances (hk w) (maker ord) t + a \<le> MAX_UINT256"
         "w' = emit (OrderExpired e (maker ord))
                   (upd_hk (swap_pop pid i) (emit (RefundFailed e (maker ord)) ?credit))"
    by blast
  then have
    all: "orders (hk w') = (orders (hk w))(e := ord\<lparr>active := False\<rparr>)
        \<and> poolOrders (hk w') = (poolOrders (hk w))
             (pid := butlast (ids[i := ids ! (length ids - 1)]))
        \<and> nextOrderId (hk w') = nextOrderId (hk w)
        \<and> entered (hk w') = entered (hk w)
        \<and> allowedBots (hk w') = allowedBots (hk w)
        \<and> self w' = self w \<and> poolManager w' = poolManager w
        \<and> restricted w' = restricted w \<and> returnsFalse w' = returnsFalse w
        \<and> calls w' = calls w @ [(ERC20_transfer t (maker ord) a, deactivate e (hk w))]"
    and alt: "(\<not> restricted w t (maker ord) \<and> a \<le> balanceOf w t (self w)
          \<and> balanceOf w' = balanceOf (move t (self w) (maker ord) a w)
          \<and> unclaimedBalances (hk w') = unclaimedBalances (hk w)
          \<and> events w' = events w @ [OrderExpired e (maker ord)])
       \<or> ((restricted w t (maker ord) \<or> balanceOf w t (self w) < a)
          \<and> balanceOf w' = balanceOf w
          \<and> unclaimedBalances (hk w') = (unclaimedBalances (hk w))
               (maker ord := (unclaimedBalances (hk w) (maker ord))
                  (t := unclaimedBalances (hk w) (maker ord) t + a))
          \<and> unclaimedBalances (hk w) (maker ord) t + a \<le> MAX_UINT256
          \<and> events w' = events w @ [RefundFailed e (maker ord), OrderExpired e (maker ord)])"
  proof (atomize (full), cases)
    case ok
    then show "(orders (hk w') = (orders (hk w))(e := ord\<lparr>active := False\<rparr>)
        \<and> poolOrders (hk w') = (poolOrders (hk w))
             (pid := butlast (ids[i := ids ! (length ids - 1)]))
        \<and> nextOrderId (hk w') = nextOrderId (hk w)
        \<and> entered (hk w') = entered (hk w)
        \<and> allowedBots (hk w') = allowedBots (hk w)
        \<and> self w' = self w \<and> poolManager w' = poolManager w
        \<and> restricted w' = restricted w \<and> returnsFalse w' = returnsFalse w
        \<and> calls w' = calls w @ [(ERC20_transfer t (maker ord) a, deactivate e (hk w))])
     \<and> ((\<not> restricted w t (maker ord) \<and> a \<le> balanceOf w t (self w)
          \<and> balanceOf w' = balanceOf (move t (self w) (maker ord) a w)
          \<and> unclaimedBalances (hk w') = unclaimedBalances (hk w)
          \<and> events w' = events w @ [OrderExpired e (maker ord)])
       \<or> ((restricted w t (maker ord) \<or> balanceOf w t (self w) < a)
          \<and> balanceOf w' = balanceOf w
          \<and> unclaimedBalances (hk w') = (unclaimedBalances (hk w))
               (maker ord := (unclaimedBalances (hk w) (maker ord))
                  (t := unclaimedBalances (hk w) (maker ord) t + a))
          \<and> unclaimedBalances (hk w) (maker ord) t + a \<le> MAX_UINT256
          \<and> events w' = events w @ [RefundFailed e (maker ord), OrderExpired e (maker ord)]))"
      by (simp add: ids_def ord_def move_def Let_def)
  next
    case fail
    then show "(orders (hk w') = (orders (hk w))(e := ord\<lparr>active := False\<rparr>)
        \<and> poolOrders (hk w') = (poolOrders (hk w))
             (pid := butlast (ids[i := ids ! (length ids - 1)]))
        \<and> nextOrderId (hk w') = nextOrderId (hk w)
        \<and> entered (hk w') = entered (hk w)
        \<and> allowedBots (hk w') = allowedBots (hk w)
        \<and> self w' = self w \<and> poolManager w' = poolManager w
        \<and> restricted w' = restricted w \<and> returnsFalse w' = returnsFalse w
        \<and> calls w' = calls w @ [(ERC20_transfer t (maker ord) a, deactivate e (hk w))])
     \<and> ((\<not> restricted w t (maker ord) \<and> a \<le> balanceOf w t (self w)
          \<and> balanceOf w' = balanceOf (move t (self w) (maker ord) a w)
          \<and> unclaimedBalances (hk w') = unclaimedBalances (hk w)
          \<and> events w' = events w @ [OrderExpired e (maker ord)])
       \<or> ((restricted w t (maker ord) \<or> balanceOf w t (self w) < a)
          \<and> balanceOf w' = balanceOf w
          \<and> unclaimedBalances (hk w') = (unclaimedBalances (hk w))
               (maker ord := (unclaimedBalances (hk w) (maker ord))
                  (t := unclaimedBalances (hk w) (maker ord) t + a))
          \<and> unclaimedBalances (hk w) (maker ord) t + a \<le> MAX_UINT256
          \<and> events w' = events w @ [RefundFailed e (maker ord), OrderExpired e (maker ord)]))"
      by (auto simp: ids_def ord_def)
  qed
  from all show "orders (hk w') = (orders (hk w))(e := ord\<lparr>active := False\<rparr>)"
    and "poolOrders (hk w') = (poolOrders (hk w))
           (pid := butlast (ids[i := ids ! (length ids - 1)]))"
    and "nextOrderId (hk w') = nextOrderId (hk w)"
    and "entered (hk w') = entered (hk w)"
    and "allowedBots (hk w') = allowedBots (hk w)"
    and "self w' = self w" and "poolManager w' = poolManager w"
    and "restricted w' = restricted w" and "returnsFalse w' = returnsFalse w"
    and "calls w' = calls w @ [(ERC20_transfer t (maker ord) a, deactivate e (hk w))]"
    by simp_all
  from alt show "(\<not> restricted w t (maker ord) \<and> a \<le> balanceOf w t (self w)
          \<and> balanceOf w' = balanceOf (move t (self w) (maker ord) a w)
          \<and> unclaimedBalances (hk w') = unclaimedBalances (hk w)
          \<and> events w' = events w @ [OrderExpired e (maker ord)])
       \<or> ((restricted w t (maker ord) \<or> balanceOf w t (self w) < a)
          \<and> balanceOf w' = balanceOf w
          \<and> unclaimedBalances (hk w') = (unclaimedBalances (hk w))
               (maker ord := (unclaimedBalances (hk w) (maker ord))
                  (t := unclaimedBalances (hk w) (maker ord) t + a))
          \<and> unclaimedBalances (hk w) (maker ord) t + a \<le> MAX_UINT256
          \<and> events w' = events w @ [RefundFailed e (maker ord), OrderExpired e (maker ord)])" .
qed



text \<open>
  The loop of \<open>purgeExpiredOrders\<close> as a while rule: an invariant kept by a purge round
  and by a skip holds when the loop returns, together with the negated loop test.
\<close>

lemma purge_loop_rule:
  assumes run: "purge_loop now key mp i p w = Inr w'"
    and init: "I i p w"
    and step: "\<And>i p w w1.
       \<lbrakk>I i p w; i < length (poolOrders (hk w) (keccak256_encode key)); p < mp;
        active (orders (hk w) (poolOrders (hk w) (keccak256_encode key) ! i));
        now > expiry (orders (hk w) (poolOrders (hk w) (keccak256_encode key) ! i));
        purge_one key i w = Inr w1\<rbrakk> \<Longrightarrow> I i (Suc p) w1"
    and skip: "\<And>i p w.
       \<lbrakk>I i p w; i < length (poolOrders (hk w) (keccak256_encode key)); p < mp;
        \<not> (active (orders (hk w) (poolOrders (hk w) (keccak256_encode key) ! i))
           \<and> now > expiry (orders (hk w) (poolOrders (hk w) (keccak256_encode key) ! i)))\<rbrakk>
       \<Longrightarrow> I (Suc i) p w"
  shows "\<exists>i' p'. I i' p' w'
           \<and> \<not> (i' < length (poolOrders (hk w') (keccak256_encode key)) \<and> p' < mp)"
proof -
  have stepO: "\<forall>i p w w1.
       I i p w \<and> i < length (poolOrders (hk w) (keccak256_encode key)) \<and> p < mp
       \<and> active (orders (hk w) (poolOrders (hk w) (keccak256_encode key) ! i))
       \<and> now > expiry (orders (hk w) (poolOrders (hk w) (keccak256_encode key) ! i))
       \<and> purge_one key i w = Inr w1 \<longrightarrow> I i (Suc p) w1"
    using step by blast
  have skipO: "\<forall>i p w.
       I i p w \<and> i < length (poolOrders (hk w) (keccak256_encode key)) \<and> p < mp
       \<and> \<not> (active (orders (hk w) (poolOrders (hk w) (keccak256_encode key) ! i))
           \<and> now > expiry (orders (hk w) (poolOrders (hk w) (keccak256_encode key) ! i)))
       \<longrightarrow> I (Suc i) p w"
    using skip by blast
  from run init stepO skipO show ?thesis
  proof (induction now key mp i p w rule: purge_loop.induct)
    case (1 now key mp i p w)
    let ?ids = "poolOrders (hk w) (keccak256_encode key)"
    note stp = "1.prems"(3) and skp = "1.prems"(4)
    show ?case
    proof (cases "i < length ?ids \<and> p < mp")
      case False
      with "1.prems"(1) have "w' = w"
        by (simp add: purge_loop.simps [of now key mp i p w] Let_def)
      with False "1.prems"(2) show ?thesis by blast
    next
      case True
      show ?thesis
      proof (cases "active (orders (hk w) (?ids ! i)) \<and> now > expiry (orders (hk w) (?ids ! i))")
        case ex: True
        with True "1.prems"(1) obtain w1 where
          o: "purge_one key i w = Inr w1" and
          l: "purge_loop now key mp i (Suc p) w1 = Inr w'"
          by (auto simp: purge_loop.simps [of now key mp i p w] Let_def split: sum.splits)
        from stp "1.prems"(2) True ex o have "I i (Suc p) w1" by blast
        from "1.IH"(1) [OF refl True refl ex o l this stp skp] show ?thesis .
      next
        case nex: False
        with True "1.prems"(1) have l: "purge_loop now key mp (Suc i) p w = Inr w'"
          by (auto simp: purge_loop.simps [of now key mp i p w] Let_def)
        from skp "1.prems"(2) True nex have "I (Suc i) p w" by blast
        from "1.IH"(2) [OF refl True refl nex l this stp skp] show ?thesis .
      qed
    qed
  qed
qed


lemma purgeExpiredOrders_Inr:
  assumes "purgeExpiredOrders now key mp w = Inr (u, w')"
  shows "\<not> entered (hk w)"
    and "\<exists>w''. purge_loop now key mp 0 0 (upd_hk (\<lambda>s. s\<lparr>entered := True\<rparr>) w) = Inr w''
              \<and> w' = upd_hk (\<lambda>s. s\<lparr>entered := False\<rparr>) w''"
  using assms
  by (auto simp: purgeExpiredOrders_def nonReentrant_def split: if_splits sum.splits)

lemma beforeSwap_Inr_cases:
  assumes b: "beforeSwap caller now sender key params w = Inr (r, w')"
  obtains (zero) "r = (BeforeSwapSelector, ZERO_DELTA, 0)" "w' = w"
        "caller = poolManager w" "\<not> entered (hk w)"
  | (hit) m j where
        "caller = poolManager w" "\<not> entered (hk w)"
        "allowedBots (hk w) sender" "amountSpecified params < 0"
        "nat (- amountSpecified params) \<le> INT128_MAX"
        "j < length (poolOrders (hk w) (keccak256_encode key))" "j < MAX_ITERATIONS"
        "m = poolOrders (hk w) (keccak256_encode key) ! j"
        "active (orders (hk w) m)" "\<not> now > expiry (orders (hk w) m)"
        "sellToken0 (orders (hk w) m) \<noteq> zeroForOne params"
        "\<not> (of_nat (nat (- amountSpecified params)) :: uint128) < minAmountOut (orders (hk w) m)"
        "orders (hk w') = (orders (hk w))(m := (orders (hk w) m)\<lparr>active := False\<rparr>)"
        "poolOrders (hk w') = (poolOrders (hk w))(keccak256_encode key :=
           removeOrder_loop (poolOrders (hk w) (keccak256_encode key)) m 0)"
        "nextOrderId (hk w') = nextOrderId (hk w)"
        "unclaimedBalances (hk w') = unclaimedBalances (hk w)"
        "allowedBots (hk w') = allowedBots (hk w)"
        "\<not> entered (hk w')"
        "events w' = events w @ [P2PTrade m (maker (orders (hk w) m)) sender
            (if zeroForOne params then currency0 key else currency1 key)
            (if zeroForOne params then currency1 key else currency0 key)
            (minAmountOut (orders (hk w) m)) (amountIn (orders (hk w) m))]"
        "calls w' = calls w @
           [(PM_take (if zeroForOne params then currency0 key else currency1 key)
               (maker (orders (hk w) m)) (unat (minAmountOut (orders (hk w) m))),
             removeOrder (keccak256_encode key) m (deactivate m ((hk w)\<lparr>entered := True\<rparr>))),
            (PM_sync (if zeroForOne params then currency1 key else currency0 key),
             removeOrder (keccak256_encode key) m (deactivate m ((hk w)\<lparr>entered := True\<rparr>))),
            (ERC20_transfer (if zeroForOne params then currency1 key else currency0 key)
               (poolManager w) (unat (amountIn (orders (hk w) m))),
             removeOrder (keccak256_encode key) m (deactivate m ((hk w)\<lparr>entered := True\<rparr>))),
            (PM_settle,
             removeOrder (keccak256_encode key) m (deactivate m ((hk w)\<lparr>entered := True\<rparr>)))]"
        "takeCalls w' = takeCalls w @
           [(if zeroForOne params then currency0 key else currency1 key,
             maker (orders (hk w) m), unat (minAmountOut (orders (hk w) m)))]"
        "r = (BeforeSwapSelector,
              toBeforeSwapDelta (minAmountOut (orders (hk w) m)) (- amountIn (orders (hk w) m)), 0)"
        "amountIn (orders (hk w) m) \<noteq> INT128_MIN"
        "self w' = self w" "poolManager w' = poolManager w"
        "restricted w' = restricted w" "returnsFalse w' = returnsFalse w"
        "balanceOf w' = balanceOf
           (move (if zeroForOne params then currency1 key else currency0 key)
              (self w) (poolManager w) (unat (amountIn (orders (hk w) m)))
              (move (if zeroForOne params then currency0 key else currency1 key)
                 (poolManager w) (maker (orders (hk w) m))
                 (unat (minAmountOut (orders (hk w) m))) w))"
proof -
  let ?ids = "poolOrders (hk w) (keccak256_encode key)"
  let ?g = "upd_hk (\<lambda>s. s\<lparr>entered := True\<rparr>) w"
  from beforeSwap_Inr [OF b] have c: "caller = poolManager w" "\<not> entered (hk w)" by auto
  from beforeSwap_Inr [OF b]
  consider (z) "r = (BeforeSwapSelector, ZERO_DELTA, 0)" "w' = w"
    | (h) m w'' where
        "allowedBots (hk w) sender" "amountSpecified params < 0"
        "nat (- amountSpecified params) \<le> INT128_MAX"
        "match_loop now (zeroForOne params) (of_nat (nat (- amountSpecified params)))
              (orders (hk w)) ?ids
              (if length ?ids < MAX_ITERATIONS then length ?ids else MAX_ITERATIONS) 0 = Some m"
        "settle_match sender key params (keccak256_encode key) m ?g = Inr (r, w'')"
        "w' = upd_hk (\<lambda>s. s\<lparr>entered := False\<rparr>) w''"
    by blast
  then show thesis
  proof cases
    case z
    from z c show ?thesis by (rule zero)
  next
    case h
    from match_loop_Some [OF h(4)] obtain j where
      j: "j < (if length ?ids < MAX_ITERATIONS then length ?ids else MAX_ITERATIONS)"
         "m = ?ids ! j" "active (orders (hk w) m)" "\<not> now > expiry (orders (hk w) m)"
         "sellToken0 (orders (hk w) m) \<noteq> zeroForOne params"
         "\<not> (of_nat (nat (- amountSpecified params)) :: uint128) < minAmountOut (orders (hk w) m)"
      by blast
    from j(1) have jl: "j < length ?ids" "j < MAX_ITERATIONS" by (auto split: if_splits)
    note S = settle_match_Inr [OF h(5)]
    show ?thesis
    proof (rule hit [of j m])
      show "caller = poolManager w" "\<not> entered (hk w)" by (rule c)+
      show "allowedBots (hk w) sender" "amountSpecified params < 0"
        "nat (- amountSpecified params) \<le> INT128_MAX" by (rule h)+
      show "j < length ?ids" "j < MAX_ITERATIONS" by (rule jl)+
      show "m = ?ids ! j" "active (orders (hk w) m)" "\<not> now > expiry (orders (hk w) m)"
         "sellToken0 (orders (hk w) m) \<noteq> zeroForOne params"
         "\<not> (of_nat (nat (- amountSpecified params)) :: uint128) < minAmountOut (orders (hk w) m)"
        by (rule j)+
      show "orders (hk w') = (orders (hk w))(m := (orders (hk w) m)\<lparr>active := False\<rparr>)"
        "poolOrders (hk w') = (poolOrders (hk w))(keccak256_encode key :=
           removeOrder_loop ?ids m 0)"
        "nextOrderId (hk w') = nextOrderId (hk w)"
        "unclaimedBalances (hk w') = unclaimedBalances (hk w)"
        "allowedBots (hk w') = allowedBots (hk w)"
        "\<not> entered (hk w')"
        by (simp_all add: h(6) S(1))
      show "events w' = events w @ [P2PTrade m (maker (orders (hk w) m)) sender
            (if zeroForOne params then currency0 key else currency1 key)
            (if zeroForOne params then currency1 key else currency0 key)
            (minAmountOut (orders (hk w) m)) (amountIn (orders (hk w) m))]"
        using S(2) by (simp add: h(6))
      show "calls w' = calls w @
           [(PM_take (if zeroForOne params then currency0 key else currency1 key)
               (maker (orders (hk w) m)) (unat (minAmountOut (orders (hk w) m))),
             removeOrder (keccak256_encode key) m (deactivate m ((hk w)\<lparr>entered := True\<rparr>))),
            (PM_sync (if zeroForOne params then currency1 key else currency0 key),
             removeOrder (keccak256_encode key) m (deactivate m ((hk w)\<lparr>entered := True\<rparr>))),
            (ERC20_transfer (if zeroForOne params then currency1 key else currency0 key)
               (poolManager w) (unat (amountIn (orders (hk w) m))),
             removeOrder (keccak256_encode key) m (deactivate m ((hk w)\<lparr>entered := True\<rparr>))),
            (PM_settle,
             removeOrder (keccak256_encode key) m (deactivate m ((hk w)\<lparr>entered := True\<rparr>)))]"
        using S(3) by (simp add: h(6))
      show "takeCalls w' = takeCalls w @
           [(if zeroForOne params then currency0 key else currency1 key,
             maker (orders (hk w) m), unat (minAmountOut (orders (hk w) m)))]"
        using S(4) by (simp add: h(6))
      show "r = (BeforeSwapSelector,
              toBeforeSwapDelta (minAmountOut (orders (hk w) m)) (- amountIn (orders (hk w) m)), 0)"
        using S(5) by simp
      show "amountIn (orders (hk w) m) \<noteq> INT128_MIN" using S(6) by simp
      show "self w' = self w" "poolManager w' = poolManager w"
        "restricted w' = restricted w" "returnsFalse w' = returnsFalse w"
        using S(7-10) by (simp_all add: h(6))
      show "balanceOf w' = balanceOf
           (move (if zeroForOne params then currency1 key else currency0 key)
              (self w) (poolManager w) (unat (amountIn (orders (hk w) m)))
              (move (if zeroForOne params then currency0 key else currency1 key)
                 (poolManager w) (maker (orders (hk w) m))
                 (unat (minAmountOut (orders (hk w) m))) w))"
        using S(11) by (simp add: h(6) move_def Let_def)
    qed
  qed
qed


section \<open>Every entry point keeps the index invariant\<close>

lemma index_ok_entered [simp]:
  "index_ok (s\<lparr>entered := b\<rparr>) = index_ok s"
  "index_ok (s\<lparr>allowedBots := f\<rparr>) = index_ok s"
  "index_ok (s\<lparr>admin := a\<rparr>) = index_ok s"
  "index_ok (s\<lparr>pendingAdmin := a\<rparr>) = index_ok s"
  "index_ok (s\<lparr>unclaimedBalances := g\<rparr>) = index_ok s"
  by (rule index_ok_cong; simp)+

lemma postOrder_index_ok:
  assumes "postOrder a now key sell amtIn minOut dur w = Inr (n, w')" and "index_ok (hk w)"
  shows "index_ok (hk w')"
  using assms(2)
proof (rule index_ok_post)
  note P = postOrder_Inr [OF assms(1)]
  show "orders (hk w') = (orders (hk w))(nextOrderId (hk w) :=
           \<lparr>maker = a, sellToken0 = sell, amountIn = amtIn, minAmountOut = minOut,
            expiry = now + dur, active = True, poolId = keccak256_encode key\<rparr>)"
    using P(1,2) by simp
  show "poolOrders (hk w') = (poolOrders (hk w))(keccak256_encode key :=
           poolOrders (hk w) (keccak256_encode key) @ [nextOrderId (hk w)])"
    using P(1,3) by simp
  show "nextOrderId (hk w') = Suc (nextOrderId (hk w))"
    using P(1,4) by simp
qed simp_all

lemma cancelOrder_index_ok:
  assumes "cancelOrder a m key w = Inr (u, w')" and ok: "index_ok (hk w)"
  shows "index_ok (hk w')"
proof -
  note C = cancelOrder_Inr [OF assms(1)]
  from index_okD(2) [OF ok, of m "keccak256_encode key"] C(3,4)
  have "m \<in> set (poolOrders (hk w) (keccak256_encode key))" by simp
  then show ?thesis
    by (rule index_ok_remove [OF ok _ C(5) C(6) removeOrder_loop_mset0 C(7)])
qed

lemma beforeSwap_index_ok:
  assumes "beforeSwap caller now sender key params w = Inr (r, w')" and ok: "index_ok (hk w)"
  shows "index_ok (hk w')"
  using assms(1)
proof (cases rule: beforeSwap_Inr_cases)
  case zero
  with ok show ?thesis by simp
next
  case (hit m j)
  from hit(6,8) have "m \<in> set (poolOrders (hk w) (keccak256_encode key))" by simp
  then show ?thesis
    by (rule index_ok_remove [OF ok _ hit(13) hit(14) removeOrder_loop_mset0 hit(15)])
qed

lemma purge_one_index_ok:
  assumes "purge_one key i w = Inr w'" and ok: "index_ok (hk w)"
    and i: "i < length (poolOrders (hk w) (keccak256_encode key))"
  shows "index_ok (hk w')"
proof -
  note P = purge_one_Inr [OF assms(1)]
  from i have "poolOrders (hk w) (keccak256_encode key) ! i
                 \<in> set (poolOrders (hk w) (keccak256_encode key))" by simp
  then show ?thesis
    by (rule index_ok_remove [OF ok _ P(1) P(2) swap_pop_mset [OF i] P(3)])
qed

lemma purge_loop_index_ok:
  assumes "purge_loop now key mp i p w = Inr w'" and ok: "index_ok (hk w)"
  shows "index_ok (hk w')"
proof -
  from purge_loop_rule [where I = "\<lambda>i p w. index_ok (hk w)", OF assms(1) ok]
  show ?thesis
    using purge_one_index_ok by blast
qed

lemma purgeExpiredOrders_index_ok:
  assumes "purgeExpiredOrders now key mp w = Inr (u, w')" and ok: "index_ok (hk w)"
  shows "index_ok (hk w')"
proof -
  from purgeExpiredOrders_Inr(2) [OF assms(1)] obtain w'' where
    l: "purge_loop now key mp 0 0 (upd_hk (\<lambda>s. s\<lparr>entered := True\<rparr>) w) = Inr w''"
    and w': "w' = upd_hk (\<lambda>s. s\<lparr>entered := False\<rparr>) w''"
    by blast
  from purge_loop_index_ok [OF l] ok show ?thesis by (simp add: w')
qed

lemma claimRefund_index_ok:
  assumes "claimRefund a t w = Inr (u, w')" and ok: "index_ok (hk w)"
  shows "index_ok (hk w')"
  using claimRefund_Inr(1-3) [OF assms(1)] ok index_ok_cong by blast

lemma admin_index_ok:
  "addBot a b w = Inr (u, w') \<Longrightarrow> index_ok (hk w') = index_ok (hk w)"
  "removeBot a b w = Inr (u, w') \<Longrightarrow> index_ok (hk w') = index_ok (hk w)"
  "setAdmin a b w = Inr (u, w') \<Longrightarrow> index_ok (hk w') = index_ok (hk w)"
  "acceptAdmin a w = Inr (u, w') \<Longrightarrow> index_ok (hk w') = index_ok (hk w)"
  "afterSwap a w = Inr (v, w') \<Longrightarrow> index_ok (hk w') = index_ok (hk w)"
  by (auto simp: addBot_def removeBot_def setAdmin_def acceptAdmin_def afterSwap_def
           split: if_splits)

lemma dispatch_index_ok:
  assumes "dispatch a t e w = Inr w'" and ok: "index_ok (hk w)"
  shows "index_ok (hk w')"
proof (cases e)
  case (PostOrder key sell amtIn minOut dur)
  with assms(1) obtain n where "postOrder a t key sell amtIn minOut dur w = Inr (n, w')"
    by (auto simp: discard_def split: sum.splits)
  then show ?thesis using ok by (rule postOrder_index_ok)
next
  case (CancelOrder m key)
  with assms(1) have "cancelOrder a m key w = Inr ((), w')"
    by (auto simp: discard_def split: sum.splits)
  then show ?thesis using ok by (rule cancelOrder_index_ok)
next
  case (BeforeSwap sender key params)
  with assms(1) obtain r where "beforeSwap a t sender key params w = Inr (r, w')"
    by (auto simp: discard_def split: sum.splits)
  then show ?thesis using ok by (rule beforeSwap_index_ok)
next
  case (PurgeExpiredOrders key mp)
  with assms(1) have "purgeExpiredOrders t key mp w = Inr ((), w')"
    by (auto simp: discard_def split: sum.splits)
  then show ?thesis using ok by (rule purgeExpiredOrders_index_ok)
next
  case (ClaimRefund tok)
  with assms(1) have "claimRefund a tok w = Inr ((), w')"
    by (auto simp: discard_def split: sum.splits)
  then show ?thesis using ok by (rule claimRefund_index_ok)
next
  case (AddBot b)
  with assms(1) have "addBot a b w = Inr ((), w')"
    by (auto simp: discard_def split: sum.splits)
  with ok show ?thesis by (simp add: admin_index_ok)
next
  case (RemoveBot b)
  with assms(1) have "removeBot a b w = Inr ((), w')"
    by (auto simp: discard_def split: sum.splits)
  with ok show ?thesis by (simp add: admin_index_ok)
next
  case (SetAdmin b)
  with assms(1) have "setAdmin a b w = Inr ((), w')"
    by (auto simp: discard_def split: sum.splits)
  with ok show ?thesis by (simp add: admin_index_ok)
next
  case AcceptAdmin
  with assms(1) have "acceptAdmin a w = Inr ((), w')"
    by (auto simp: discard_def split: sum.splits)
  with ok show ?thesis by (simp add: admin_index_ok)
next
  case AfterSwap
  with assms(1) obtain v where "afterSwap a w = Inr (v, w')"
    by (auto simp: discard_def split: sum.splits)
  with ok show ?thesis by (simp add: admin_index_ok)
next
  case UnusedHook
  with assms(1) show ?thesis by simp
qed

lemma exec_index_ok: "index_ok (hk w) \<Longrightarrow> index_ok (hk (exec x w))"
  by (auto simp: exec_def split: sum.splits dest: dispatch_index_ok)

lemma run_index_ok: "index_ok (hk w) \<Longrightarrow> index_ok (hk (run xs w))"
  by (induction xs arbitrary: w) (simp_all add: exec_index_ok)


section \<open>The pool indexes agree with the active flags\<close>

lemma index_ok_setUp: "index_ok (hk setUp)"
  unfolding setUp_def by (rule run_index_ok) (simp add: deploy_def index_ok_constructor)

lemma index_ok_posted: "index_ok (hk posted)"
  unfolding posted_def by (rule run_index_ok) (rule index_ok_setUp)

lemma exec_beforeSwap:
  "beforeSwap a t sender key params w = Inr (r, w')
     \<Longrightarrow> exec \<lparr>msg_sender = a, timestamp = t, entry = BeforeSwap sender key params\<rparr> w = w'"
  by (simp add: exec_def discard_def)

text \<open>
  C6. Right after deployment, and after every transaction from a world where it holds
  (so in every reachable world), an id is in the index of pool \<open>p\<close> exactly when its order
  is active and carries \<open>poolId = p\<close>, and no index holds an id twice: cancel, match and
  purge take the id out of the index in the transaction that clears the flag, and
  \<open>postOrder\<close> appends it in the transaction that sets the flag.
\<close>

theorem index_active_agreement:
  "index_ok (hk (deploy hookAddr adm pm bal allow restr rf))
   \<and> (index_ok (hk w) \<longrightarrow> index_ok (hk (exec x w)) \<and> index_ok (hk (run xs w)))"
  by (simp add: deploy_def index_ok_constructor exec_index_ok run_index_ok)

theorem index_active_agreement_witness:
  "index_ok (hk posted) \<and> index_ok (hk matched)
   \<and> poolOrders (hk posted) (keccak256_encode poolKey) = [0] \<and> active (orders (hk posted) 0)
   \<and> poolOrders (hk matched) (keccak256_encode poolKey) = [] \<and> \<not> active (orders (hk matched) 0)"
proof -
  let ?d = "deploy 1000 1 2 (\<lambda>t a. if a = 1000 then 0 else 10000)
                (\<lambda>t a b. MAX_UINT256) (\<lambda>t a. t = 12 \<and> a = 3) (\<lambda>t. False)"
  have d: "index_ok (hk ?d)"
    using index_active_agreement [of 1000 1 2 "\<lambda>t a. if a = 1000 then 0 else 10000"
        "\<lambda>t a b. MAX_UINT256" "\<lambda>t a. t = 12 \<and> a = 3" "\<lambda>t. False"]
    by blast
  have s: "index_ok (hk setUp)"
    unfolding setUp_def using d index_active_agreement [of _ _ _ _ _ _ _ ?d] by blast
  have p: "index_ok (hk posted)"
    unfolding posted_def using s index_active_agreement [of _ _ _ _ _ _ _ setUp] by blast
  have m: "index_ok (hk matched)"
    unfolding matched_def using p index_active_agreement [of _ _ _ _ _ _ _ posted] by blast
  have e: "poolOrders (hk posted) (keccak256_encode poolKey) = [0]" "active (orders (hk posted) 0)"
    by (simp_all add: posted_def setUp_def model_defs)
  have f: "poolOrders (hk matched) (keccak256_encode poolKey) = []"
    "\<not> active (orders (hk matched) 0)"
    by (simp_all add: matched_def posted_def setUp_def model_defs)
  from p m e f show ?thesis by blast
qed


section \<open>Inactive orders stay inactive\<close>

lemma purge_loop_frame:
  assumes "purge_loop now key mp i p w = Inr w'"
  shows "nextOrderId (hk w') = nextOrderId (hk w)"
    and "trades (events w') = trades (events w)"
    and "\<not> active (orders (hk w) m) \<Longrightarrow> \<not> active (orders (hk w') m)"
    and "entered (hk w') = entered (hk w)"
    and "allowedBots (hk w') = allowedBots (hk w)"
    and "self w' = self w" and "poolManager w' = poolManager w"
    and "restricted w' = restricted w" and "returnsFalse w' = returnsFalse w"
proof -
  let ?I = "\<lambda>(i::nat) (p::nat) w1. nextOrderId (hk w1) = nextOrderId (hk w)
      \<and> trades (events w1) = trades (events w)
      \<and> (\<forall>m. \<not> active (orders (hk w) m) \<longrightarrow> \<not> active (orders (hk w1) m))
      \<and> entered (hk w1) = entered (hk w) \<and> allowedBots (hk w1) = allowedBots (hk w)
      \<and> self w1 = self w \<and> poolManager w1 = poolManager w
      \<and> restricted w1 = restricted w \<and> returnsFalse w1 = returnsFalse w"
  have "\<exists>i' p'. ?I i' p' w' \<and> \<not> (i' < length (poolOrders (hk w') (keccak256_encode key)) \<and> p' < mp)"
  proof (rule purge_loop_rule [where I = ?I, OF assms])
    show "?I i p w" by simp
  next
    fix i p w0 w1
    assume I: "?I i p w0" and o: "purge_one key i w0 = Inr w1"
    note P = purge_one_Inr [OF o]
    from P(11) have "trades (events w1) = trades (events w0)" by auto
    with I P(1,3-9) show "?I i (Suc p) w1" by auto
  qed simp
  then show "nextOrderId (hk w') = nextOrderId (hk w)"
    and "trades (events w') = trades (events w)"
    and "\<not> active (orders (hk w) m) \<Longrightarrow> \<not> active (orders (hk w') m)"
    and "entered (hk w') = entered (hk w)"
    and "allowedBots (hk w') = allowedBots (hk w)"
    and "self w' = self w" and "poolManager w' = poolManager w"
    and "restricted w' = restricted w" and "returnsFalse w' = returnsFalse w"
    by blast+
qed

lemma dispatch_inactive_stable:
  assumes d: "dispatch a t e w = Inr w'"
    and ia: "\<not> active (orders (hk w) m)" and lt: "m < nextOrderId (hk w)"
  shows "\<not> active (orders (hk w') m) \<and> m < nextOrderId (hk w')
       \<and> count_list (trades (events w')) m = count_list (trades (events w)) m"
proof (cases e)
  case (PostOrder key sell amtIn minOut dur)
  with d obtain n where "postOrder a t key sell amtIn minOut dur w = Inr (n, w')"
    by (auto simp: discard_def split: sum.splits)
  note P = postOrder_Inr [OF this]
  from P(1,2,4,15) ia lt show ?thesis by simp
next
  case (CancelOrder k key)
  with d have "cancelOrder a k key w = Inr ((), w')"
    by (auto simp: discard_def split: sum.splits)
  note C = cancelOrder_Inr [OF this]
  from C(5,7,18) ia lt show ?thesis by simp
next
  case (BeforeSwap sender key params)
  with d obtain r where "beforeSwap a t sender key params w = Inr (r, w')"
    by (auto simp: discard_def split: sum.splits)
  then show ?thesis
  proof (cases rule: beforeSwap_Inr_cases)
    case zero
    with ia lt show ?thesis by simp
  next
    case (hit k j)
    from hit(9) ia have "k \<noteq> m" by auto
    with hit(13,15,19) ia lt show ?thesis by simp
  qed
next
  case (PurgeExpiredOrders key mp)
  with d have "purgeExpiredOrders t key mp w = Inr ((), w')"
    by (auto simp: discard_def split: sum.splits)
  from purgeExpiredOrders_Inr(2) [OF this] obtain w'' where
    l: "purge_loop t key mp 0 0 (upd_hk (\<lambda>s. s\<lparr>entered := True\<rparr>) w) = Inr w''"
    and w': "w' = upd_hk (\<lambda>s. s\<lparr>entered := False\<rparr>) w''"
    by blast
  from purge_loop_frame(1,2) [OF l] purge_loop_frame(3) [OF l, of m] ia lt
  show ?thesis by (simp add: w')
next
  case (ClaimRefund tok)
  with d have "claimRefund a tok w = Inr ((), w')"
    by (auto simp: discard_def split: sum.splits)
  note C = claimRefund_Inr [OF this]
  from C(1,3,15) ia lt show ?thesis by simp
next
  case (AddBot b)
  with d ia lt show ?thesis
    by (auto simp: discard_def addBot_def split: sum.splits if_splits)
next
  case (RemoveBot b)
  with d ia lt show ?thesis
    by (auto simp: discard_def removeBot_def split: sum.splits if_splits)
next
  case (SetAdmin b)
  with d ia lt show ?thesis
    by (auto simp: discard_def setAdmin_def split: sum.splits if_splits)
next
  case AcceptAdmin
  with d ia lt show ?thesis
    by (auto simp: discard_def acceptAdmin_def split: sum.splits if_splits)
next
  case AfterSwap
  with d ia lt show ?thesis
    by (auto simp: discard_def afterSwap_def split: sum.splits if_splits)
next
  case UnusedHook
  with d show ?thesis by simp
qed

lemma run_inactive_stable:
  assumes "\<not> active (orders (hk w) m)" and "m < nextOrderId (hk w)"
  shows "\<not> active (orders (hk (run xs w)) m) \<and> m < nextOrderId (hk (run xs w))
       \<and> count_list (trades (events (run xs w))) m = count_list (trades (events w)) m"
  using assms
proof (induction xs arbitrary: w)
  case Nil
  then show ?case by simp
next
  case (Cons x xs)
  have "\<not> active (orders (hk (exec x w)) m) \<and> m < nextOrderId (hk (exec x w))
       \<and> count_list (trades (events (exec x w))) m = count_list (trades (events w)) m"
    using Cons.prems dispatch_inactive_stable [of "msg_sender x" "timestamp x" "entry x" w _ m]
    by (auto simp: exec_def split: sum.splits)
  with Cons.IH [of "exec x w"] show ?case by simp
qed

text \<open>
  C2. When \<open>beforeSwap\<close> matches order \<open>m\<close> (its trade is the event the call adds), the
  order is inactive and in no index afterwards; every external call of the settlement
  (take, sync, the token transfer, settle) already sees the hook's storage with the
  order inactive, out of every index and the reentrancy guard set; and whatever
  transactions follow, the order stays inactive and no further trade of it is emitted.
\<close>

theorem no_double_match:
  assumes ok: "index_ok (hk w)"
      and b: "beforeSwap caller now sender key params w = Inr (r, w')"
      and m: "trades (events w') = trades (events w) @ [m]"
  shows "\<not> active (orders (hk w') m)
       \<and> (\<forall>p. m \<notin> set (poolOrders (hk w') p))
       \<and> map fst (new_calls w w') =
           [PM_take (if zeroForOne params then currency0 key else currency1 key)
              (maker (orders (hk w) m)) (unat (minAmountOut (orders (hk w) m))),
            PM_sync (if zeroForOne params then currency1 key else currency0 key),
            ERC20_transfer (if zeroForOne params then currency1 key else currency0 key)
              (poolManager w) (unat (amountIn (orders (hk w) m))),
            PM_settle]
       \<and> (\<forall>s \<in> snd ` set (new_calls w w').
             entered s \<and> \<not> active (orders s m) \<and> (\<forall>p. m \<notin> set (poolOrders s p)))
       \<and> (\<forall>xs. \<not> active (orders (hk (run xs w')) m)
              \<and> count_list (trades (events (run xs w'))) m = count_list (trades (events w')) m)"
  using b
proof (cases rule: beforeSwap_Inr_cases)
  case zero
  with m show ?thesis by simp
next
  case (hit k j)
  from hit(19) m have km: "k = m" by simp
  note h = hit [unfolded km]
  from index_okD(3) [OF ok h(9)] have lt: "m < nextOrderId (hk w)" .
  have ia: "\<not> active (orders (hk w') m)" by (simp add: h(13))
  have ok': "index_ok (hk w')" using b ok by (rule beforeSwap_index_ok)
  have ni: "m \<notin> set (poolOrders (hk w') p)" for p
    using index_okD(2) [OF ok', of m p] ia by simp
  let ?s = "removeOrder (keccak256_encode key) m (deactivate m ((hk w)\<lparr>entered := True\<rparr>))"
  have sn: "entered ?s" "\<not> active (orders ?s m)" by simp_all
  have "poolOrders ?s = poolOrders (hk w')" by (simp add: h(14))
  with ni have sp: "m \<notin> set (poolOrders ?s p)" for p by simp
  have nc: "new_calls w w' =
           [(PM_take (if zeroForOne params then currency0 key else currency1 key)
               (maker (orders (hk w) m)) (unat (minAmountOut (orders (hk w) m))), ?s),
            (PM_sync (if zeroForOne params then currency1 key else currency0 key), ?s),
            (ERC20_transfer (if zeroForOne params then currency1 key else currency0 key)
               (poolManager w) (unat (amountIn (orders (hk w) m))), ?s),
            (PM_settle, ?s)]"
    by (simp add: new_calls_def h(20))
  from ia h(15) lt have "m < nextOrderId (hk w')" by simp
  with ia have later: "\<not> active (orders (hk (run xs w')) m)
              \<and> count_list (trades (events (run xs w'))) m = count_list (trades (events w')) m"
    for xs
    using run_inactive_stable [of w' m xs] by simp
  show ?thesis
    using ia ni sn sp later by (simp add: nc)
qed

theorem no_double_match_witness:
  "index_ok (hk posted)
   \<and> (\<exists>r. beforeSwap 2 5 4 poolKey swapParams posted = Inr (r, matched))
   \<and> trades (events matched) = trades (events posted) @ [0]
   \<and> \<not> active (orders (hk matched) 0)
   \<and> map fst (new_calls posted matched)
        = [PM_take 11 3 95, PM_sync 10, ERC20_transfer 10 2 100, PM_settle]
   \<and> \<not> active (orders (hk (run [swapTx, swapTx] matched)) 0)
   \<and> count_list (trades (events (run [swapTx, swapTx] matched))) 0 = 1"
proof -
  have "\<exists>r w'. beforeSwap 2 5 4 poolKey swapParams posted = Inr (r, w')
           \<and> trades (events w') = trades (events posted) @ [0]"
    by (simp add: posted_def setUp_def model_defs)
  then obtain r w' where b: "beforeSwap 2 5 4 poolKey swapParams posted = Inr (r, w')"
    and t: "trades (events w') = trades (events posted) @ [0]"
    by blast
  have w': "matched = w'"
    using exec_beforeSwap [OF b] by (simp add: matched_def swapTx_def)
  have c: "count_list (trades (events posted)) 0 = 0"
    by (simp add: posted_def setUp_def model_defs)
  have o: "maker (orders (hk posted) 0) = 3" "unat (minAmountOut (orders (hk posted) 0)) = 95"
    "unat (amountIn (orders (hk posted) 0)) = 100" "poolManager posted = 2"
    by (simp_all add: posted_def setUp_def model_defs)
  note N = no_double_match [OF index_ok_posted b t]
  from N have a1: "\<not> active (orders (hk w') 0)" by blast
  from N o have a2: "map fst (new_calls posted w')
        = [PM_take 11 3 95, PM_sync 10, ERC20_transfer 10 2 100, PM_settle]"
    by (simp add: swapParams_def poolKey_def)
  from N have a3: "\<not> active (orders (hk (run [swapTx, swapTx] w')) 0)
      \<and> count_list (trades (events (run [swapTx, swapTx] w'))) 0
          = count_list (trades (events w')) 0"
    by blast
  from t c have a4: "count_list (trades (events w')) 0 = 1" by simp
  from b have a5: "\<exists>r. beforeSwap 2 5 4 poolKey swapParams posted = Inr (r, w')" by blast
  from index_ok_posted a5 t a1 a2 a3 a4 show ?thesis
    unfolding w' by simp
qed

section \<open>The purge leaves unexpired orders alone\<close>





section \<open>The purge returns\<close>





section \<open>What the purge removes\<close>






lemma no_overflow_entered [simp]:
  "no_overflow key (s\<lparr>entered := b\<rparr>) = no_overflow key s"
  by (simp add: no_overflow_def index_escrow_def)

lemma expired_in_entered [simp]:
  "expired_in now (s\<lparr>entered := b\<rparr>) p = expired_in now s p"
  by (simp add: expired_in_def)

lemma removed_ids_entered [simp]:
  "removed_ids p (s\<lparr>entered := b\<rparr>) s' = removed_ids p s s'"
  "removed_ids p s (s'\<lparr>entered := b\<rparr>) = removed_ids p s s'"
  by (simp_all add: removed_ids_def)

lemma refund_call_entered [simp]:
  "refund_call key (s\<lparr>entered := b\<rparr>) = refund_call key s"
  by (rule ext) (simp add: refund_call_def)

lemma new_calls_guard [simp]:
  "new_calls (upd_hk f w) w' = new_calls w w'"
  "new_calls w (upd_hk f w') = new_calls w w'"
  by (simp_all add: new_calls_def)



section \<open>Settlement amounts\<close>

lemma int_unat_bound:
  fixes x :: int128
  assumes "unat x < 2 ^ 127"
  shows "int (unat x) < 2 ^ 127"
proof -
  from assms have "int (unat x) < int (2 ^ 127)" by (simp only: of_nat_less_iff)
  then show ?thesis by (simp only: of_nat_power of_nat_numeral)
qed

lemma sint_small:
  fixes x :: int128
  assumes "unat x < 2 ^ 127"
  shows "sint x = int (unat x)"
proof -
  have u: "uint x = int (unat x)" by (simp only: uint_nat)
  have "int (unat x) < 2 ^ 127" using assms by (rule int_unat_bound)
  moreover have "- (2 ^ 127) \<le> int (unat x)"
    by (rule order_trans [of _ 0]) (simp_all only: neg_le_0_iff_le zero_le_power
        zero_le_numeral of_nat_0_le_iff)
  ultimately have "signed_take_bit 127 (int (unat x)) = int (unat x)"
    by (rule signed_take_bit_int_eq_self [rotated])
  then show ?thesis by (simp add: sint_uint)
qed

lemma sint_neg_small:
  fixes x :: int128
  assumes "unat x < 2 ^ 127"
  shows "sint (- x) = - int (unat x)"
proof -
  have s: "sint x = int (unat x)" using assms by (rule sint_small)
  have u: "int (unat x) < 2 ^ 127" using assms by (rule int_unat_bound)
  have "- int (unat x) \<le> 0" by (simp only: neg_le_0_iff_le of_nat_0_le_iff)
  moreover have "(0::int) < 2 ^ 127" by (simp only: zero_less_power zero_less_numeral)
  ultimately have "- int (unat x) < 2 ^ 127" by (rule le_less_trans)
  moreover from u have "- (2 ^ 127) \<le> - int (unat x)"
    by (simp only: neg_le_iff_le less_imp_le)
  ultimately have "signed_take_bit 127 (- int (unat x)) = - int (unat x)"
    by (rule signed_take_bit_int_eq_self [rotated])
  then show ?thesis by (simp add: sint_word_ariths s)
qed

text \<open>
  Whenever \<open>beforeSwap\<close> matches order \<open>m\<close>: the pool manager is told to hand
  \<open>minAmountOut\<close> of the input currency to the maker, the hook sends the full \<open>amountIn\<close>
  of the output currency to the pool manager, and, when \<open>amountIn\<close> is below \<open>2 ^ 127\<close>,
  the delta reads \<open>minAmountOut\<close> on the specified and \<open>- amountIn\<close> on the unspecified side.
\<close>

lemma settlement_amounts:
  assumes b: "beforeSwap caller now sender key params w = Inr (r, w')"
      and m: "trades (events w') = trades (events w) @ [m]"
  shows "takeCalls w' = takeCalls w @
           [(if zeroForOne params then currency0 key else currency1 key,
             maker (orders (hk w) m), unat (minAmountOut (orders (hk w) m)))]
    \<and> map fst (new_calls w w') =
           [PM_take (if zeroForOne params then currency0 key else currency1 key)
              (maker (orders (hk w) m)) (unat (minAmountOut (orders (hk w) m))),
            PM_sync (if zeroForOne params then currency1 key else currency0 key),
            ERC20_transfer (if zeroForOne params then currency1 key else currency0 key)
              (poolManager w) (unat (amountIn (orders (hk w) m))),
            PM_settle]
    \<and> unat (minAmountOut (orders (hk w) m)) \<le> nat (- amountSpecified params)
    \<and> (\<exists>specified unspecified. r = (BeforeSwapSelector, (specified, unspecified), 0)
           \<and> sint specified = int (unat (minAmountOut (orders (hk w) m)))
           \<and> (unat (amountIn (orders (hk w) m)) < 2 ^ 127 \<longrightarrow>
                 sint unspecified = - int (unat (amountIn (orders (hk w) m)))))"
  using b
proof (cases rule: beforeSwap_Inr_cases)
  case zero
  with m show ?thesis by simp
next
  case (hit k j)
  from hit(19) m have km: "k = m" by simp
  note h = hit [unfolded km]
  let ?n = "nat (- amountSpecified params)"
  from h(5) have n: "?n < 2 ^ 127" by (simp add: INT128_MAX_def)
  have "(2::nat) ^ 127 < 2 ^ 128" by simp
  with n have "?n < 2 ^ 128" by (rule less_trans)
  then have un: "unat (of_nat ?n :: uint128) = ?n"
    by (simp add: unat_of_nat)
  from h(12) have "unat (minAmountOut (orders (hk w) m)) \<le> unat (of_nat ?n :: uint128)"
    by (simp add: word_less_nat_alt)
  with un have le: "unat (minAmountOut (orders (hk w) m)) \<le> ?n" by simp
  from le n have "unat (minAmountOut (orders (hk w) m)) < 2 ^ 127" by (rule le_less_trans)
  then have sp: "sint (minAmountOut (orders (hk w) m))
                   = int (unat (minAmountOut (orders (hk w) m)))"
    by (rule sint_small)
  have us: "sint (- amountIn (orders (hk w) m)) = - int (unat (amountIn (orders (hk w) m)))"
    if "unat (amountIn (orders (hk w) m)) < 2 ^ 127"
    using that by (rule sint_neg_small)
  have nc: "map fst (new_calls w w') =
           [PM_take (if zeroForOne params then currency0 key else currency1 key)
              (maker (orders (hk w) m)) (unat (minAmountOut (orders (hk w) m))),
            PM_sync (if zeroForOne params then currency1 key else currency0 key),
            ERC20_transfer (if zeroForOne params then currency1 key else currency0 key)
              (poolManager w) (unat (amountIn (orders (hk w) m))),
            PM_settle]"
    by (simp add: new_calls_def h(20))
  have rr: "\<exists>specified unspecified. r = (BeforeSwapSelector, (specified, unspecified), 0)
           \<and> sint specified = int (unat (minAmountOut (orders (hk w) m)))
           \<and> (unat (amountIn (orders (hk w) m)) < 2 ^ 127 \<longrightarrow>
                 sint unspecified = - int (unat (amountIn (orders (hk w) m))))"
    using sp us by (simp add: h(22) toBeforeSwapDelta_def)
  from h(21) nc le rr show ?thesis by blast
qed

text \<open>
  C3. The settlement at the input where the claimed delta fails: order 0 escrows
  \<open>2 ^ 127 + 1\<close> of token 10 and asks 95 of token 11; bot 4 swaps 100 of token 11. The
  taker's 95 go to the maker and the full escrow goes to the pool manager, but the
  unspecified delta returned is \<open>+ (2 ^ 127 - 1)\<close>, not \<open>- (2 ^ 127 + 1)\<close>: the cast
  \<open>int128(uint128(order.amountIn))\<close> wraps. With an escrow of exactly \<open>2 ^ 127\<close> the
  negation overflows and \<open>beforeSwap\<close> reverts.
\<close>

theorem settlement_delta_wraps:
  "unat (amountIn (orders (hk bigPosted) 0)) = 2 ^ 127 + 1
   \<and> (\<exists>w'. beforeSwap 2 5 4 poolKey swapParams bigPosted
             = Inr ((BeforeSwapSelector,
                     toBeforeSwapDelta 95 170141183460469231731687303715884105727, 0), w')
          \<and> takeCalls w' = [(11, 3, 95)]
          \<and> settleCalls w' = [(10, 2 ^ 127 + 1)])
   \<and> sint (170141183460469231731687303715884105727 :: int128) = 2 ^ 127 - 1
   \<and> beforeSwap 2 5 4 poolKey swapParams minPosted = Inl Panic"
proof -
  have a: "unat (amountIn (orders (hk bigPosted) 0)) = 2 ^ 127 + 1"
    by (simp add: bigPosted_def whale_def model_defs)
  have b: "\<exists>w'. beforeSwap 2 5 4 poolKey swapParams bigPosted
             = Inr ((BeforeSwapSelector,
                     toBeforeSwapDelta 95 170141183460469231731687303715884105727, 0), w')
          \<and> takeCalls w' = [(11, 3, 95)]
          \<and> settleCalls w' = [(10, 2 ^ 127 + 1)]"
    by (simp add: bigPosted_def whale_def model_defs)
  have c: "sint (170141183460469231731687303715884105727 :: int128) = 2 ^ 127 - 1"
    by simp
  have d: "beforeSwap 2 5 4 poolKey swapParams minPosted = Inl Panic"
    by (simp add: minPosted_def whale_def model_defs)
  from a b c d show ?thesis by blast
qed

section \<open>Custody\<close>

lemma sum_support_update:
  fixes g :: "'a \<Rightarrow> nat"
  assumes fin: "finite {a. g a \<noteq> 0}"
  shows "finite {a. (g(k := v)) a \<noteq> 0}"
    and "sum (g(k := v)) {a. (g(k := v)) a \<noteq> 0} + g k = sum g {a. g a \<noteq> 0} + v"
proof -
  let ?S = "insert k {a. g a \<noteq> 0}"
  have fS: "finite ?S" using fin by simp
  have sub': "{a. (g(k := v)) a \<noteq> 0} \<subseteq> ?S" by auto
  then show "finite {a. (g(k := v)) a \<noteq> 0}" using fS by (rule finite_subset)
  have 1: "sum (g(k := v)) {a. (g(k := v)) a \<noteq> 0} = sum (g(k := v)) ?S"
    by (rule sum.mono_neutral_left [OF fS sub']) auto
  have 2: "sum g {a. g a \<noteq> 0} = sum g ?S"
    by (rule sum.mono_neutral_left [OF fS]) auto
  have kS: "k \<in> ?S" by simp
  have "sum (g(k := v)) ?S = (g(k := v)) k + sum (g(k := v)) (?S - {k})"
    using fS kS by (rule sum.remove)
  then have 3: "sum (g(k := v)) ?S = v + sum (g(k := v)) (?S - {k})"
    by (simp only: fun_upd_same)
  have 4: "sum g ?S = g k + sum g (?S - {k})"
    using fS kS by (rule sum.remove)
  have 5: "sum (g(k := v)) (?S - {k}) = sum g (?S - {k})"
    by (rule sum.cong) auto
  show "sum (g(k := v)) {a. (g(k := v)) a \<noteq> 0} + g k = sum g {a. g a \<noteq> 0} + v"
    unfolding 1 2 3 4 5 by simp
qed

lemma owed_update:
  assumes fin: "\<forall>t. finite {a. unclaimedBalances s a t \<noteq> 0}"
    and u: "unclaimedBalances s' = (unclaimedBalances s)(k := (unclaimedBalances s k)(t0 := v))"
  shows "\<forall>t. finite {a. unclaimedBalances s' a t \<noteq> 0}"
    and "owed s' t0 + unclaimedBalances s k t0 = owed s t0 + v"
    and "t \<noteq> t0 \<Longrightarrow> owed s' t = owed s t"
proof -
  have same: "(\<lambda>a. unclaimedBalances s' a t) = (\<lambda>a. unclaimedBalances s a t)" if "t \<noteq> t0" for t
    using that by (auto simp: u)
  have upd: "(\<lambda>a. unclaimedBalances s' a t0) = (\<lambda>a. unclaimedBalances s a t0)(k := v)"
    by (auto simp: u)
  from fin have f0: "finite {a. (\<lambda>a. unclaimedBalances s a t0) a \<noteq> 0}" by simp
  note U = sum_support_update [OF f0, of k v]
  show "\<forall>t. finite {a. unclaimedBalances s' a t \<noteq> 0}"
  proof
    fix t show "finite {a. unclaimedBalances s' a t \<noteq> 0}"
    proof (cases "t = t0")
      case True
      have "{a. unclaimedBalances s' a t0 \<noteq> 0}
              = {a. ((\<lambda>a. unclaimedBalances s a t0)(k := v)) a \<noteq> 0}"
        using upd by (metis (no_types))
      with U(1) True show ?thesis by simp
    next
      case False
      have "{a. unclaimedBalances s' a t \<noteq> 0} = {a. unclaimedBalances s a t \<noteq> 0}"
        using same [OF False] by (metis (no_types))
      with fin show ?thesis by simp
    qed
  qed
  have "owed s' t0 = sum ((\<lambda>a. unclaimedBalances s a t0)(k := v))
                       {a. ((\<lambda>a. unclaimedBalances s a t0)(k := v)) a \<noteq> 0}"
    unfolding owed_def upd [symmetric] ..
  with U(2) show "owed s' t0 + unclaimedBalances s k t0 = owed s t0 + v"
    by (simp add: owed_def)
  show "owed s' t = owed s t" if "t \<noteq> t0"
    unfolding owed_def using same [OF that] by (metis (no_types))
qed

lemma owed_cong:
  "unclaimedBalances s' = unclaimedBalances s \<Longrightarrow> owed s' t = owed s t"
  by (simp add: owed_def)

lemma escrowed_cong:
  "orders s' = orders s \<Longrightarrow> nextOrderId s' = nextOrderId s \<Longrightarrow> escrowed s' t = escrowed s t"
  by (simp add: escrowed_def cong: if_cong)

lemma escrowed_post:
  assumes "orders s' = (orders s)(nextOrderId s := ord)" and "nextOrderId s' = Suc (nextOrderId s)"
    and "active ord"
  shows "escrowed s' t = escrowed s t + (if asset_of ord = t then unat (amountIn ord) else 0)"
  using assms by (simp add: escrowed_def cong: if_cong)

lemma escrowed_deactivate:
  assumes o: "orders s' = (orders s)(m := (orders s m)\<lparr>active := False\<rparr>)"
    and n: "nextOrderId s' = nextOrderId s"
    and m: "m < nextOrderId s" and a: "active (orders s m)"
  shows "escrowed s' t + (if asset_of (orders s m) = t then unat (amountIn (orders s m)) else 0)
           = escrowed s t"
proof -
  let ?f = "\<lambda>k. if active (orders s k) \<and> asset_of (orders s k) = t
                 then unat (amountIn (orders s k)) else 0"
  let ?f' = "\<lambda>k. if active (orders s' k) \<and> asset_of (orders s' k) = t
                 then unat (amountIn (orders s' k)) else 0"
  have mem: "m \<in> {..<nextOrderId s}" using m by simp
  have 1: "sum ?f {..<nextOrderId s} = ?f m + sum ?f ({..<nextOrderId s} - {m})"
    using finite_lessThan mem by (rule sum.remove)
  have 2: "sum ?f' {..<nextOrderId s} = ?f' m + sum ?f' ({..<nextOrderId s} - {m})"
    using finite_lessThan mem by (rule sum.remove)
  have 3: "sum ?f' ({..<nextOrderId s} - {m}) = sum ?f ({..<nextOrderId s} - {m})"
    by (rule sum.cong) (auto simp: o)
  have 4: "?f' m = 0" by (simp add: o)
  have 5: "?f m = (if asset_of (orders s m) = t then unat (amountIn (orders s m)) else 0)"
    using a by simp
  have 6: "escrowed s' t = sum ?f' {..<nextOrderId s}" unfolding escrowed_def n ..
  have 7: "escrowed s t = sum ?f {..<nextOrderId s}" unfolding escrowed_def ..
  show ?thesis unfolding 6 7 1 2 3 4 5 by simp
qed


lemma asset_of_key:
  "poolId ord = keccak256_encode key
     \<Longrightarrow> asset_of ord = (if sellToken0 ord then currency0 key else currency1 key)"
  by (simp add: asset_of_def keccak256_encode_def)

lemma custody_invD:
  assumes "custody_inv w"
  shows "index_ok (hk w)" and "self w \<noteq> poolManager w"
    and "active (orders (hk w) m) \<Longrightarrow> maker (orders (hk w) m) \<noteq> self w"
    and "unclaimedBalances (hk w) (self w) t = 0"
    and "\<forall>t. finite {a. unclaimedBalances (hk w) a t \<noteq> 0}"
    and "balanceOf w t (self w) = escrowed (hk w) t + owed (hk w) t"
  using assms unfolding custody_inv_def by blast+

lemma custody_invI:
  assumes "index_ok (hk w)" and "self w \<noteq> poolManager w"
    and "\<And>m. active (orders (hk w) m) \<Longrightarrow> maker (orders (hk w) m) \<noteq> self w"
    and "\<And>t. unclaimedBalances (hk w) (self w) t = 0"
    and "\<forall>t. finite {a. unclaimedBalances (hk w) a t \<noteq> 0}"
    and "\<And>t. balanceOf w t (self w) = escrowed (hk w) t + owed (hk w) t"
  shows "custody_inv w"
  using assms unfolding custody_inv_def by blast

text \<open>An active order leaves: its escrow goes out of the hook's balance.\<close>

lemma custody_release:
  assumes inv: "custody_inv w"
    and a: "active (orders (hk w) m)"
    and o: "orders (hk w') = (orders (hk w))(m := (orders (hk w) m)\<lparr>active := False\<rparr>)"
    and n: "nextOrderId (hk w') = nextOrderId (hk w)"
    and u: "unclaimedBalances (hk w') = unclaimedBalances (hk w)"
    and ok: "index_ok (hk w')" and s: "self w' = self w" and pm: "poolManager w' = poolManager w"
    and b: "\<And>t. balanceOf w' t (self w) = balanceOf w t (self w)
              - (if asset_of (orders (hk w) m) = t then unat (amountIn (orders (hk w) m)) else 0)"
  shows "custody_inv w'"
proof (rule custody_invI)
  note D = custody_invD [OF inv]
  from index_okD(3) [OF D(1) a] have m: "m < nextOrderId (hk w)" .
  show "index_ok (hk w')" by (rule ok)
  show "self w' \<noteq> poolManager w'" using D(2) by (simp add: s pm)
  show "maker (orders (hk w') k) \<noteq> self w'" if "active (orders (hk w') k)" for k
    using that D(3) [of k] by (cases "k = m") (simp_all add: o s)
  show "unclaimedBalances (hk w') (self w') t = 0" for t
    using D(4) by (simp add: u s)
  show "\<forall>t. finite {a. unclaimedBalances (hk w') a t \<noteq> 0}"
    using D(5) by (simp add: u)
  show "balanceOf w' t (self w') = escrowed (hk w') t + owed (hk w') t" for t
  proof -
    from escrowed_deactivate [OF o n m a, of t]
    have e: "escrowed (hk w') t
               + (if asset_of (orders (hk w) m) = t then unat (amountIn (orders (hk w) m)) else 0)
             = escrowed (hk w) t" .
    have "owed (hk w') t = owed (hk w) t" using u by (rule owed_cong)
    with e D(6) [of t] b [of t] show ?thesis by (simp add: s)
  qed
qed

text \<open>An expired order whose refund failed: its escrow becomes an unclaimed balance.\<close>

lemma custody_credit:
  assumes inv: "custody_inv w"
    and a: "active (orders (hk w) m)"
    and o: "orders (hk w') = (orders (hk w))(m := (orders (hk w) m)\<lparr>active := False\<rparr>)"
    and n: "nextOrderId (hk w') = nextOrderId (hk w)"
    and u: "unclaimedBalances (hk w') = (unclaimedBalances (hk w))
               (maker (orders (hk w) m) := (unclaimedBalances (hk w) (maker (orders (hk w) m)))
                  (asset_of (orders (hk w) m) :=
                     unclaimedBalances (hk w) (maker (orders (hk w) m)) (asset_of (orders (hk w) m))
                     + unat (amountIn (orders (hk w) m))))"
    and ok: "index_ok (hk w')" and s: "self w' = self w" and pm: "poolManager w' = poolManager w"
    and b: "balanceOf w' = balanceOf w"
  shows "custody_inv w'"
proof (rule custody_invI)
  note D = custody_invD [OF inv]
  let ?mk = "maker (orders (hk w) m)"
  let ?t0 = "asset_of (orders (hk w) m)"
  let ?amt = "unat (amountIn (orders (hk w) m))"
  from index_okD(3) [OF D(1) a] have m: "m < nextOrderId (hk w)" .
  from D(3) [OF a] have mk: "?mk \<noteq> self w" .
  note O = owed_update [OF D(5) u]
  show "index_ok (hk w')" by (rule ok)
  show "self w' \<noteq> poolManager w'" using D(2) by (simp add: s pm)
  show "maker (orders (hk w') k) \<noteq> self w'" if "active (orders (hk w') k)" for k
    using that D(3) [of k] by (cases "k = m") (simp_all add: o s)
  show "unclaimedBalances (hk w') (self w') t = 0" for t
    using D(4) [of t] mk by (simp add: u s)
  show "\<forall>t. finite {a. unclaimedBalances (hk w') a t \<noteq> 0}" by (rule O(1))
  show "balanceOf w' t (self w') = escrowed (hk w') t + owed (hk w') t" for t
  proof -
    from escrowed_deactivate [OF o n m a, of t]
    have e: "escrowed (hk w') t + (if ?t0 = t then ?amt else 0) = escrowed (hk w) t" .
    show ?thesis
    proof (cases "t = ?t0")
      case True
      from O(2) have "owed (hk w') ?t0 = owed (hk w) ?t0 + ?amt" by simp
      with e D(6) [of t] True show ?thesis by (simp add: s b)
    next
      case False
      from O(3) [OF False] have "owed (hk w') t = owed (hk w) t" .
      with e D(6) [of t] False show ?thesis by (simp add: s b)
    qed
  qed
qed

lemma postOrder_custody:
  assumes p: "postOrder a now key sell amtIn minOut dur w = Inr (n, w')"
    and inv: "custody_inv w" and ne: "a \<noteq> self w"
  shows "custody_inv w'"
proof (rule custody_invI)
  note D = custody_invD [OF inv]
  note P = postOrder_Inr [OF p]
  let ?tok = "if sell then currency0 key else currency1 key"
  let ?new = "\<lparr>maker = a, sellToken0 = sell, amountIn = amtIn, minAmountOut = minOut,
            expiry = now + dur, active = True, poolId = keccak256_encode key\<rparr>"
  show "index_ok (hk w')" using p D(1) by (rule postOrder_index_ok)
  show "self w' \<noteq> poolManager w'" using D(2) by (simp add: P)
  show "maker (orders (hk w') k) \<noteq> self w'" if "active (orders (hk w') k)" for k
    using that D(3) [of k] ne by (cases "k = n") (simp_all add: P(2,9))
  show "unclaimedBalances (hk w') (self w') t = 0" for t
    using D(4) [of t] by (simp add: P)
  show "\<forall>t. finite {a. unclaimedBalances (hk w') a t \<noteq> 0}"
    using D(5) by (simp add: P)
  show "balanceOf w' t (self w') = escrowed (hk w') t + owed (hk w') t" for t
  proof -
    have o: "orders (hk w') = (orders (hk w))(nextOrderId (hk w) := ?new)"
      using P(1,2) by simp
    have nx: "nextOrderId (hk w') = Suc (nextOrderId (hk w))" using P(1,4) by simp
    from escrowed_post [OF o nx, of t]
    have e: "escrowed (hk w') t = escrowed (hk w) t + (if ?tok = t then unat amtIn else 0)"
      by (simp add: asset_of_def keccak256_encode_def)
    have w: "owed (hk w') t = owed (hk w) t" using P(5) by (rule owed_cong)
    have "balanceOf w' t (self w) = balanceOf w t (self w) + (if ?tok = t then unat amtIn else 0)"
      using ne by (simp add: P(13) move_balanceOf)
    with e w D(6) [of t] show ?thesis by (simp add: P(9))
  qed
qed

lemma cancelOrder_custody:
  assumes c: "cancelOrder a m key w = Inr (u, w')" and inv: "custody_inv w"
  shows "custody_inv w'"
proof -
  note D = custody_invD [OF inv]
  note C = cancelOrder_Inr [OF c]
  from D(3) [OF C(3)] C(2) have ne: "a \<noteq> self w" by simp
  have t: "asset_of (orders (hk w) m)
             = (if sellToken0 (orders (hk w) m) then currency0 key else currency1 key)"
    using C(4) by (rule asset_of_key)
  show ?thesis
  proof (rule custody_release [OF inv C(3) C(5) C(7) C(8) _ C(12) C(13)])
    show "index_ok (hk w')" using c D(1) by (rule cancelOrder_index_ok)
    show "balanceOf w' t' (self w) = balanceOf w t' (self w)
              - (if asset_of (orders (hk w) m) = t' then unat (amountIn (orders (hk w) m)) else 0)"
      for t'
      using ne by (simp add: C(16) move_balanceOf t)
  qed
qed

lemma beforeSwap_custody:
  assumes b: "beforeSwap caller now sender key params w = Inr (r, w')" and inv: "custody_inv w"
  shows "custody_inv w'"
  using b
proof (cases rule: beforeSwap_Inr_cases)
  case zero
  with inv show ?thesis by simp
next
  case (hit m j)
  note D = custody_invD [OF inv]
  from hit(6,8) have "m \<in> set (poolOrders (hk w) (keccak256_encode key))" by simp
  with index_okD(2) [OF D(1), of m "keccak256_encode key"]
  have pid: "poolId (orders (hk w) m) = keccak256_encode key" by simp
  from hit(11) have t: "asset_of (orders (hk w) m)
             = (if zeroForOne params then currency1 key else currency0 key)"
    by (auto simp: asset_of_key [OF pid])
  from D(3) [OF hit(9)] have mk: "maker (orders (hk w) m) \<noteq> self w" .
  show ?thesis
  proof (rule custody_release [OF inv hit(9) hit(13) hit(15) hit(16) _ hit(24) hit(25)])
    show "index_ok (hk w')" using b D(1) by (rule beforeSwap_index_ok)
    show "balanceOf w' t' (self w) = balanceOf w t' (self w)
              - (if asset_of (orders (hk w) m) = t' then unat (amountIn (orders (hk w) m)) else 0)"
      for t'
      using mk D(2) by (simp add: hit(28) move_balanceOf t)
  qed
qed


lemma purge_one_custody:
  assumes o: "purge_one key i w = Inr w'" and inv: "custody_inv w"
    and i: "i < length (poolOrders (hk w) (keccak256_encode key))"
  shows "custody_inv w'"
proof -
  note D = custody_invD [OF inv]
  note P = purge_one_Inr [OF o]
  let ?e = "poolOrders (hk w) (keccak256_encode key) ! i"
  let ?ord = "orders (hk w) ?e"
  let ?t = "if sellToken0 ?ord then currency0 key else currency1 key"
  from i have "?e \<in> set (poolOrders (hk w) (keccak256_encode key))" by simp
  with index_okD(2) [OF D(1), of ?e "keccak256_encode key"]
  have a: "active ?ord" and pid: "poolId ?ord = keccak256_encode key" by simp_all
  have t: "asset_of ?ord = ?t" using pid by (rule asset_of_key)
  from D(3) [OF a] have mk: "maker ?ord \<noteq> self w" .
  have ok: "index_ok (hk w')" using o D(1) i by (rule purge_one_index_ok)
  from P(11) consider
    (paid) "balanceOf w' = balanceOf (move ?t (self w) (maker ?ord) (unat (amountIn ?ord)) w)"
           "unclaimedBalances (hk w') = unclaimedBalances (hk w)"
  | (kept) "balanceOf w' = balanceOf w"
           "unclaimedBalances (hk w') = (unclaimedBalances (hk w))
               (maker ?ord := (unclaimedBalances (hk w) (maker ?ord))
                  (?t := unclaimedBalances (hk w) (maker ?ord) ?t + unat (amountIn ?ord)))"
    by blast
  then show ?thesis
  proof cases
    case paid
    show ?thesis
    proof (rule custody_release [OF inv a P(1) P(3) paid(2) ok P(6) P(7)])
      show "balanceOf w' t' (self w) = balanceOf w t' (self w)
              - (if asset_of ?ord = t' then unat (amountIn ?ord) else 0)" for t'
        using mk by (simp add: paid(1) move_balanceOf t)
    qed
  next
    case kept
    show ?thesis
      by (rule custody_credit [OF inv a P(1) P(3) _ ok P(6) P(7) kept(1)])
         (simp add: kept(2) t)
  qed
qed

lemma custody_inv_guard [simp]:
  "custody_inv (upd_hk (\<lambda>s. s\<lparr>entered := b\<rparr>) w) = custody_inv w"
  by (simp add: custody_inv_def escrowed_def owed_def cong: if_cong)

lemma purgeExpiredOrders_custody:
  assumes p: "purgeExpiredOrders now key mp w = Inr (u, w')" and inv: "custody_inv w"
  shows "custody_inv w'"
proof -
  from purgeExpiredOrders_Inr(2) [OF p] obtain w'' where
    l: "purge_loop now key mp 0 0 (upd_hk (\<lambda>s. s\<lparr>entered := True\<rparr>) w) = Inr w''"
    and w': "w' = upd_hk (\<lambda>s. s\<lparr>entered := False\<rparr>) w''"
    by blast
  have g: "custody_inv (upd_hk (\<lambda>s. s\<lparr>entered := True\<rparr>) w)" using inv by simp
  from purge_loop_rule [where I = "\<lambda>i p w. custody_inv w", OF l g] purge_one_custody
  have "custody_inv w''" by blast
  then show ?thesis by (simp add: w')
qed

lemma claimRefund_custody:
  assumes c: "claimRefund a t w = Inr (u, w')" and inv: "custody_inv w"
  shows "custody_inv w'"
proof (rule custody_invI)
  note D = custody_invD [OF inv]
  note C = claimRefund_Inr [OF c]
  from C(14) D(4) [of t] have ne: "a \<noteq> self w" by auto
  note O = owed_update [OF D(5) C(4)]
  show "index_ok (hk w')" using c D(1) by (rule claimRefund_index_ok)
  show "self w' \<noteq> poolManager w'" using D(2) by (simp add: C)
  show "maker (orders (hk w') k) \<noteq> self w'" if "active (orders (hk w') k)" for k
    using that D(3) [of k] by (simp add: C)
  show "unclaimedBalances (hk w') (self w') t' = 0" for t'
    using D(4) [of t'] ne by (auto simp: C(4,8))
  show "\<forall>t. finite {a. unclaimedBalances (hk w') a t \<noteq> 0}" by (rule O(1))
  show "balanceOf w' t' (self w') = escrowed (hk w') t' + owed (hk w') t'" for t'
  proof -
    have e: "escrowed (hk w') t' = escrowed (hk w) t'"
      using C(1,3) by (rule escrowed_cong)
    show ?thesis
    proof (cases "t' = t")
      case True
      from O(2) have "owed (hk w') t + unclaimedBalances (hk w) a t = owed (hk w) t" by simp
      with e D(6) [of t] True ne show ?thesis
        by (simp add: C(8,12) move_balanceOf)
    next
      case False
      from O(3) [OF False] have "owed (hk w') t' = owed (hk w) t'" .
      with e D(6) [of t'] False show ?thesis
        by (simp add: C(8,12) move_balanceOf)
    qed
  qed
qed

lemma admin_custody:
  "addBot a b w = Inr (u, w') \<Longrightarrow> custody_inv w' = custody_inv w"
  "removeBot a b w = Inr (u, w') \<Longrightarrow> custody_inv w' = custody_inv w"
  "setAdmin a b w = Inr (u, w') \<Longrightarrow> custody_inv w' = custody_inv w"
  "acceptAdmin a w = Inr (u, w') \<Longrightarrow> custody_inv w' = custody_inv w"
  "afterSwap a w = Inr (v, w') \<Longrightarrow> custody_inv w' = custody_inv w"
  by (auto simp: addBot_def removeBot_def setAdmin_def acceptAdmin_def afterSwap_def
                 custody_inv_def escrowed_def owed_def
           split: if_splits cong: if_cong)

lemma dispatch_custody:
  assumes d: "dispatch a t e w = Inr w'" and inv: "custody_inv w" and ne: "a \<noteq> self w"
  shows "custody_inv w' \<and> self w' = self w"
proof (cases e)
  case (PostOrder key sell amtIn minOut dur)
  with d obtain n where p: "postOrder a t key sell amtIn minOut dur w = Inr (n, w')"
    by (auto simp: discard_def split: sum.splits)
  from postOrder_custody [OF p inv ne] postOrder_Inr(9) [OF p] show ?thesis by simp
next
  case (CancelOrder m key)
  with d have p: "cancelOrder a m key w = Inr ((), w')"
    by (auto simp: discard_def split: sum.splits)
  from cancelOrder_custody [OF p inv] cancelOrder_Inr(12) [OF p] show ?thesis by simp
next
  case (BeforeSwap sender key params)
  with d obtain r where p: "beforeSwap a t sender key params w = Inr (r, w')"
    by (auto simp: discard_def split: sum.splits)
  have "self w' = self w" using p by (cases rule: beforeSwap_Inr_cases) simp_all
  with beforeSwap_custody [OF p inv] show ?thesis by simp
next
  case (PurgeExpiredOrders key mp)
  with d have p: "purgeExpiredOrders t key mp w = Inr ((), w')"
    by (auto simp: discard_def split: sum.splits)
  from purgeExpiredOrders_Inr(2) [OF p] obtain w'' where
    l: "purge_loop t key mp 0 0 (upd_hk (\<lambda>s. s\<lparr>entered := True\<rparr>) w) = Inr w''"
    and w': "w' = upd_hk (\<lambda>s. s\<lparr>entered := False\<rparr>) w''"
    by blast
  from purge_loop_frame(6) [OF l] have "self w' = self w" by (simp add: w')
  with purgeExpiredOrders_custody [OF p inv] show ?thesis by simp
next
  case (ClaimRefund tok)
  with d have p: "claimRefund a tok w = Inr ((), w')"
    by (auto simp: discard_def split: sum.splits)
  from claimRefund_custody [OF p inv] claimRefund_Inr(8) [OF p] show ?thesis by simp
next
  case (AddBot b)
  with d have p: "addBot a b w = Inr ((), w')"
    by (auto simp: discard_def split: sum.splits)
  then have "self w' = self w" by (auto simp: addBot_def split: if_splits)
  with inv admin_custody(1) [OF p] show ?thesis by simp
next
  case (RemoveBot b)
  with d have p: "removeBot a b w = Inr ((), w')"
    by (auto simp: discard_def split: sum.splits)
  then have "self w' = self w" by (auto simp: removeBot_def split: if_splits)
  with inv admin_custody(2) [OF p] show ?thesis by simp
next
  case (SetAdmin b)
  with d have p: "setAdmin a b w = Inr ((), w')"
    by (auto simp: discard_def split: sum.splits)
  then have "self w' = self w" by (auto simp: setAdmin_def split: if_splits)
  with inv admin_custody(3) [OF p] show ?thesis by simp
next
  case AcceptAdmin
  with d have p: "acceptAdmin a w = Inr ((), w')"
    by (auto simp: discard_def split: sum.splits)
  then have "self w' = self w" by (auto simp: acceptAdmin_def split: if_splits)
  with inv admin_custody(4) [OF p] show ?thesis by simp
next
  case AfterSwap
  with d obtain v where p: "afterSwap a w = Inr (v, w')"
    by (auto simp: discard_def split: sum.splits)
  then have "self w' = self w" by (auto simp: afterSwap_def split: if_splits)
  with inv admin_custody(5) [OF p] show ?thesis by simp
next
  case UnusedHook
  with d show ?thesis by simp
qed

lemma exec_custody:
  assumes "custody_inv w" and "msg_sender x \<noteq> self w"
  shows "custody_inv (exec x w) \<and> self (exec x w) = self w"
  using assms dispatch_custody [of "msg_sender x" "timestamp x" "entry x" w]
  by (auto simp: exec_def split: sum.splits)

lemma run_custody:
  assumes "custody_inv w" and "\<forall>x\<in>set xs. msg_sender x \<noteq> self w"
  shows "custody_inv (run xs w) \<and> self (run xs w) = self w"
  using assms
proof (induction xs arbitrary: w)
  case Nil
  then show ?case by simp
next
  case (Cons x xs)
  from exec_custody [of w x] Cons.prems
  have e: "custody_inv (exec x w)" "self (exec x w) = self w" by simp_all
  with Cons.prems have "\<forall>y\<in>set xs. msg_sender y \<noteq> self (exec x w)" by simp
  from Cons.IH [OF e(1) this] e(2) show ?case by simp
qed

lemma deploy_custody:
  assumes "hookAddr \<noteq> pm" and "\<forall>t. bal t hookAddr = 0"
  shows "custody_inv (deploy hookAddr adm pm bal allow restr rf)"
proof (rule custody_invI)
  show "index_ok (hk (deploy hookAddr adm pm bal allow restr rf))"
    by (simp add: deploy_def index_ok_constructor)
qed (use assms in \<open>simp_all add: deploy_def escrowed_def owed_def constructor_def no_order_def\<close>)


lemma owed_zero: "(\<forall>a. unclaimedBalances s a t = 0) \<Longrightarrow> owed s t = 0"
  by (simp add: owed_def)

text \<open>
  C1 (amended). For a hook deployed at an address other than the pool manager's and holding
  no tokens, and as long as the only transactions are calls of the hook's entry points sent
  by addresses other than the hook itself (so that tokens reach the hook only through the
  escrow pull of \<open>postOrder\<close>), after every such sequence the hook's balance of every asset
  equals the sum of \<open>amountIn\<close> over the active orders that escrowed it plus the sum of
  the unclaimed balances of that asset; it equals the escrow of the active orders alone
  whenever no unclaimed balance is pending. A direct token transfer to the hook's address,
  which the hook can neither refuse nor sweep, is outside this: it leaves the storage as
  it is and puts the balance above that sum by the amount transferred.
\<close>

theorem escrow_conservation:
  "(hookAddr \<noteq> pm \<and> (\<forall>t. bal t hookAddr = 0) \<longrightarrow>
      custody_inv (deploy hookAddr adm pm bal allow restr rf))
   \<and> (custody_inv w \<and> (\<forall>x\<in>set xs. msg_sender x \<noteq> self w) \<longrightarrow>
        custody_inv (run xs w) \<and> self (run xs w) = self w
      \<and> (\<forall>t. balanceOf (run xs w) t (self w)
              = escrowed (hk (run xs w)) t + owed (hk (run xs w)) t)
      \<and> ((\<forall>a t. unclaimedBalances (hk (run xs w)) a t = 0) \<longrightarrow>
            (\<forall>t. balanceOf (run xs w) t (self w) = escrowed (hk (run xs w)) t)))
   \<and> (custody_inv w \<and> src \<noteq> self w \<and> 0 < amount \<and> amount \<le> balanceOf w tok src \<longrightarrow>
        hk (move tok src (self w) amount w) = hk w
      \<and> balanceOf (move tok src (self w) amount w) tok (self w)
          = escrowed (hk w) tok + owed (hk w) tok + amount
      \<and> \<not> custody_inv (move tok src (self w) amount w))"
proof (intro conjI impI)
  assume "hookAddr \<noteq> pm \<and> (\<forall>t. bal t hookAddr = 0)"
  then show "custody_inv (deploy hookAddr adm pm bal allow restr rf)"
    by (simp add: deploy_custody)
next
  assume a: "custody_inv w \<and> (\<forall>x\<in>set xs. msg_sender x \<noteq> self w)"
  then have r: "custody_inv (run xs w)" "self (run xs w) = self w"
    using run_custody [of w xs] by simp_all
  show "custody_inv (run xs w)" "self (run xs w) = self w" by (rule r)+
  from custody_invD(6) [OF r(1)] r(2)
  show b: "\<forall>t. balanceOf (run xs w) t (self w)
              = escrowed (hk (run xs w)) t + owed (hk (run xs w)) t"
    by simp
  assume "\<forall>a t. unclaimedBalances (hk (run xs w)) a t = 0"
  then have "owed (hk (run xs w)) t = 0" for t by (simp add: owed_zero)
  with b show "\<forall>t. balanceOf (run xs w) t (self w) = escrowed (hk (run xs w)) t" by simp
next
  assume a: "custody_inv w \<and> src \<noteq> self w \<and> 0 < amount \<and> amount \<le> balanceOf w tok src"
  let ?w = "move tok src (self w) amount w"
  show "hk ?w = hk w" by simp
  from a have "balanceOf ?w tok (self w) = balanceOf w tok (self w) + amount"
    by (simp add: move_def Let_def)
  with a custody_invD(6) [of w tok]
  show e: "balanceOf ?w tok (self w) = escrowed (hk w) tok + owed (hk w) tok + amount"
    by simp
  show "\<not> custody_inv ?w"
  proof
    assume "custody_inv ?w"
    from custody_invD(6) [OF this, of tok] e a show False by simp
  qed
qed

theorem escrow_conservation_counterexample:
  "escrowed (hk stuck) 12 = 0 \<and> balanceOf stuck 12 (self stuck) = 100
   \<and> unclaimedBalances (hk stuck) 3 12 = 100
   \<and> balanceOf stuck 12 (self stuck) \<noteq> escrowed (hk stuck) 12"
  by (simp add: escrowed_def asset_of_def stuck_def setUp_def model_defs)

theorem escrow_conservation_witness:
  "custody_inv stuck
   \<and> balanceOf stuck 12 (self stuck) = escrowed (hk stuck) 12 + owed (hk stuck) 12
   \<and> escrowed (hk stuck) 12 = 0 \<and> owed (hk stuck) 12 = 100
   \<and> custody_inv posted
   \<and> balanceOf posted 10 (self posted) = 100 \<and> escrowed (hk posted) 10 = 100
   \<and> custody_inv matched
   \<and> balanceOf matched 10 (self matched) = 0 \<and> escrowed (hk matched) 10 = 0
   \<and> balanceOf (move 10 7 (self posted) 1 posted) 10 (self posted) = 101
   \<and> escrowed (hk (move 10 7 (self posted) 1 posted)) 10 = 100
   \<and> owed (hk (move 10 7 (self posted) 1 posted)) 10 = 0
   \<and> \<not> custody_inv (move 10 7 (self posted) 1 posted)"
proof -
  let ?d = "deploy 1000 1 2 (\<lambda>t a. if a = 1000 then 0 else 10000)
                (\<lambda>t a b. MAX_UINT256) (\<lambda>t a. t = 12 \<and> a = 3) (\<lambda>t. False)"
  have h: "(1000::nat) \<noteq> 2 \<and> (\<forall>t. (\<lambda>t a. if a = (1000::nat) then 0 else (10000::nat)) t 1000 = 0)"
    by simp
  have d: "custody_inv ?d"
    using h escrow_conservation [of 1000 2 "\<lambda>t a. if a = 1000 then 0 else 10000"]
    by blast
  have sd: "self ?d = 1000" by (simp add: deploy_def)
  have s: "custody_inv setUp \<and> self setUp = 1000"
    unfolding setUp_def
    using d sd escrow_conservation [of _ _ _ _ _ _ _ ?d
        "[\<lparr>msg_sender = 1, timestamp = 1, entry = AddBot 3\<rparr>,
          \<lparr>msg_sender = 1, timestamp = 1, entry = AddBot 4\<rparr>]"]
    by simp
  have st: "custody_inv stuck
      \<and> (\<forall>t. balanceOf stuck t (self setUp) = escrowed (hk stuck) t + owed (hk stuck) t)"
    unfolding stuck_def
    using s escrow_conservation [of _ _ _ _ _ _ _ setUp
        "[\<lparr>msg_sender = 3, timestamp = 1, entry = PostOrder badKey True 100 95 1\<rparr>,
          \<lparr>msg_sender = 5, timestamp = 3, entry = PurgeExpiredOrders badKey 10\<rparr>]"]
    by simp
  have po: "custody_inv posted"
    unfolding posted_def
    using s escrow_conservation [of _ _ _ _ _ _ _ setUp
        "[\<lparr>msg_sender = 3, timestamp = 1, entry = PostOrder poolKey True 100 95 3600\<rparr>]"]
    by simp
  have sp: "self posted = 1000" by (simp add: posted_def setUp_def model_defs)
  have ma: "custody_inv matched"
    unfolding matched_def
    using po sp escrow_conservation [of _ _ _ _ _ _ _ posted "[swapTx]"]
    by (simp add: swapTx_def)
  have v1: "escrowed (hk stuck) 12 = 0" "balanceOf stuck 12 (self stuck) = 100"
    "self stuck = 1000"
    by (simp_all add: escrowed_def asset_of_def stuck_def setUp_def model_defs)
  have v2: "balanceOf posted 10 (self posted) = 100" "escrowed (hk posted) 10 = 100"
    by (simp_all add: escrowed_def asset_of_def posted_def setUp_def model_defs)
  have v3: "balanceOf matched 10 (self matched) = 0" "escrowed (hk matched) 10 = 0"
    by (simp_all add: escrowed_def asset_of_def matched_def posted_def setUp_def model_defs)
  from st s v1 have e: "balanceOf stuck 12 (self stuck)
      = escrowed (hk stuck) 12 + owed (hk stuck) 12" by simp
  with v1 have ow: "owed (hk stuck) 12 = 100" by simp
  have g: "7 \<noteq> self posted \<and> (0::nat) < 1 \<and> 1 \<le> balanceOf posted 10 7"
    by (simp add: posted_def setUp_def model_defs)
  have o0: "owed (hk posted) 10 = 0"
    by (simp add: owed_def posted_def setUp_def model_defs)
  from po g escrow_conservation [of _ _ _ _ _ _ _ posted _ 7 1 10]
  have dn: "hk (move 10 7 (self posted) 1 posted) = hk posted"
    "balanceOf (move 10 7 (self posted) 1 posted) 10 (self posted)
       = escrowed (hk posted) 10 + owed (hk posted) 10 + 1"
    "\<not> custody_inv (move 10 7 (self posted) 1 posted)"
    by blast+
  from dn v2 o0 have v4: "balanceOf (move 10 7 (self posted) 1 posted) 10 (self posted) = 101"
    "escrowed (hk (move 10 7 (self posted) 1 posted)) 10 = 100"
    "owed (hk (move 10 7 (self posted) 1 posted)) 10 = 0"
    by simp_all
  from st e v1 ow po v2 ma v3 v4 dn(3) show ?thesis by blast
qed

end
